theory Spec2Isabelle
  imports Complex_Main "HOL-Library.List_Lexorder"
begin

section \<open>Values of the Python program\<close>

text \<open>
  The harvester reads JSON from the search API and keeps what it read in plain Python
  dicts and lists. A parsed JSON value is a \<open>json\<close>; Python's \<open>None\<close> is \<open>JNull\<close>. A dict is
  the list of its items in insertion order, each key once. JSON numbers with a fraction
  (Python floats) are not part of the model. A \<open>char\<close> in a JSON string, a keyword or a key
  stands for a code point below 256.

  The text of the registry and of its file is a \<open>ustring\<close>, a list of Unicode code points:
  the file may hold any text, and \<open>str.strip()\<close> removes whitespace from all of Unicode.
  \<open>code_points\<close> takes a string of the first kind to its code points.
\<close>

type_synonym ustring = "nat list"

definition code_points :: "string \<Rightarrow> ustring" where
  "code_points s = map of_char s"

datatype json =
    JNull
  | JBool bool
  | JInt int
  | JStr string
  | JList "json list"
  | JDict "(string \<times> json) list"

text \<open>The exceptions the modelled code can raise.\<close>

datatype error = AttributeError | TypeError | IndexError | KeyError | RequestException

text \<open>Python truthiness, as used by \<open>if x:\<close> and \<open>not x\<close>.\<close>

fun truthy :: "json \<Rightarrow> bool" where
  "truthy JNull = False"
| "truthy (JBool b) = b"
| "truthy (JInt n) = (n \<noteq> 0)"
| "truthy (JStr s) = (s \<noteq> [])"
| "truthy (JList xs) = (xs \<noteq> [])"
| "truthy (JDict kvs) = (kvs \<noteq> [])"

text \<open>\<open>x.get(key, default)\<close>: only a dict has the method.\<close>

fun py_get :: "json \<Rightarrow> string \<Rightarrow> json \<Rightarrow> error + json" where
  "py_get (JDict kvs) k d = Inr (case map_of kvs k of Some v \<Rightarrow> v | None \<Rightarrow> d)"
| "py_get _ k d = Inl AttributeError"

text \<open>\<open>for item in x\<close>: a list yields its elements, a dict its keys, a string its characters.\<close>

fun py_iter :: "json \<Rightarrow> error + json list" where
  "py_iter (JList xs) = Inr xs"
| "py_iter (JDict kvs) = Inr (map (\<lambda>kv. JStr (fst kv)) kvs)"
| "py_iter (JStr s) = Inr (map (\<lambda>c. JStr [c]) s)"
| "py_iter _ = Inl TypeError"

text \<open>\<open>len(x)\<close>.\<close>

fun py_len :: "json \<Rightarrow> error + int" where
  "py_len (JList xs) = Inr (int (length xs))"
| "py_len (JDict kvs) = Inr (int (length kvs))"
| "py_len (JStr s) = Inr (int (length s))"
| "py_len _ = Inl TypeError"

text \<open>\<open>isinstance(x, dict)\<close>, and whether a value can be an element of a Python set.\<close>

fun is_dict :: "json \<Rightarrow> bool" where
  "is_dict (JDict kvs) = True"
| "is_dict _ = False"

fun hashable :: "json \<Rightarrow> bool" where
  "hashable (JList xs) = False"
| "hashable (JDict kvs) = False"
| "hashable _ = True"

section \<open>Credential rotation\<close>

text \<open>
  \<open>get_next_api_key\<close>: the loop over \<open>range(1, total + 1)\<close> is the recursion \<open>scan_offsets\<close>
  over the list of offsets (\<open>n\<close> is the source's \<open>total\<close>); \<open>%\<close> is Python's, whose result has the sign of the divisor, as
  \<open>mod\<close> on \<open>int\<close> has.
\<close>

primrec scan_offsets :: "string list \<Rightarrow> int set \<Rightarrow> int \<Rightarrow> int \<Rightarrow> int list \<Rightarrow> (int \<times> string) option" where
  "scan_offsets keys exhausted current_index n [] = None"
| "scan_offsets keys exhausted current_index n (offset # rest) =
     (let idx = (current_index + offset) mod n
      in if idx \<notin> exhausted then Some (idx, keys ! nat idx)
         else scan_offsets keys exhausted current_index n rest)"

definition get_next_api_key :: "string list \<Rightarrow> int set \<Rightarrow> int \<Rightarrow> (int \<times> string) option" where
  "get_next_api_key keys exhausted current_index =
     (let n = int (length keys)
      in scan_offsets keys exhausted current_index n [1..n])"

section \<open>Quota classification\<close>

text \<open>
  The set comprehension \<open>{item.get("reason") for item in errors if isinstance(item, dict)}\<close>:
  entries that are not dicts are skipped, and a reason that is a list or a dict cannot be
  put into a set, which raises \<open>TypeError\<close>.
\<close>

primrec reasons_of :: "json list \<Rightarrow> error + json set" where
  "reasons_of [] = Inr {}"
| "reasons_of (item # rest) =
     (if is_dict item then
        (case py_get item ''reason'' JNull of
           Inl e \<Rightarrow> Inl e
         | Inr reason \<Rightarrow>
             if hashable reason then
               (case reasons_of rest of Inl e \<Rightarrow> Inl e | Inr rs \<Rightarrow> Inr (insert reason rs))
             else Inl TypeError)
      else reasons_of rest)"

definition handle_quota_error :: "json \<Rightarrow> error + bool" where
  "handle_quota_error response_json =
     (if \<not> truthy response_json then Inr False
      else case py_get response_json ''error'' (JDict []) of
        Inl e \<Rightarrow> Inl e
      | Inr err \<Rightarrow>
          (case py_get err ''errors'' (JList []) of
             Inl e \<Rightarrow> Inl e
           | Inr errors \<Rightarrow>
               (case py_iter errors of
                  Inl e \<Rightarrow> Inl e
                | Inr items \<Rightarrow>
                    (case reasons_of items of
                       Inl e \<Rightarrow> Inl e
                     | Inr reasons \<Rightarrow>
                         Inr (JStr ''quotaExceeded'' \<in> reasons
                              \<or> JStr ''dailyLimitExceeded'' \<in> reasons)))))"

section \<open>Files, network and clock\<close>

text \<open>
  One record per keyword, as \<open>process_keyword\<close> creates and updates it; the harvest state
  maps a keyword to its record. The state file holds what \<open>save_state\<close> wrote last
  (\<open>json.dump\<close> followed by \<open>json.load\<close> gives the state back), is missing, or does not parse.
  A state file that parses is taken to hold records of this shape, which is what the
  program writes; the cursor is whatever JSON value the last page gave as \<open>nextPageToken\<close>.
\<close>

record kw_state =
  last_page_token :: json
  fetched_count :: int
  completed :: bool

type_synonym state = "string \<rightharpoonup> kw_state"

datatype stored_state = NoFile | Unreadable | StateJson state

text \<open>
  What the program does to its surroundings is kept in a \<open>world\<close>: the number of calls of
  \<open>requests.get\<close> made so far, the trace of requests, pauses and the "Using API key index"
  line printed at the head of every page loop iteration, and the two files. The other
  printed lines are left out. File operations do not fail.
\<close>

type_synonym params = "(string \<times> json) list"

datatype event =
    UsingKey int string json
  | Get string params
  | Sleep rat

record world =
  calls :: nat
  events :: "event list"
  state_file :: stored_state
  output_file :: "ustring option"

definition initial_world :: world where
  "initial_world = \<lparr>calls = 0, events = [], state_file = NoFile, output_file = None\<rparr>"

text \<open>
  An HTTP response is its status and what \<open>response.json()\<close> gives: \<open>None\<close> when that raises
  \<open>JSONDecodeError\<close>. One call of \<open>requests.get\<close> either raises \<open>RequestException\<close> or returns
  a response. The surroundings are a \<open>runtime\<close>: \<open>network env k\<close> is what call number \<open>k\<close> of
  \<open>requests.get\<close> does, and \<open>str_of env v\<close> is the text (code points) Python's formatting
  gives a value \<open>v\<close> that is not a string.
\<close>

record response =
  status_code :: int
  json_body :: "json option"

datatype attempt = NetworkError | Reply response

record runtime =
  network :: "nat \<Rightarrow> attempt"
  str_of :: "json \<Rightarrow> ustring"

definition requests_get :: "runtime \<Rightarrow> string \<Rightarrow> params \<Rightarrow> world \<Rightarrow> attempt \<times> world" where
  "requests_get env url ps w =
     (network env (calls w), w\<lparr>calls := Suc (calls w), events := events w @ [Get url ps]\<rparr>)"

definition time_sleep :: "rat \<Rightarrow> world \<Rightarrow> world" where
  "time_sleep d w = w\<lparr>events := events w @ [Sleep d]\<rparr>"

subsection \<open>Persistence\<close>

definition load_state :: "world \<Rightarrow> state" where
  "load_state w = (case state_file w of StateJson st \<Rightarrow> st | _ \<Rightarrow> Map.empty)"

definition save_state :: "state \<Rightarrow> world \<Rightarrow> world" where
  "save_state st w = w\<lparr>state_file := StateJson st\<rparr>"

abbreviation LF :: nat where "LF \<equiv> 10"
abbreviation CR :: nat where "CR \<equiv> 13"

text \<open>
  \<open>str.strip()\<close> removes the characters Python counts as whitespace from both ends: the
  ASCII ones (9 to 13, 28 to 32), U+0085, U+00A0, U+1680, U+2000 to U+200A, U+2028, U+2029,
  U+202F, U+205F and U+3000.
\<close>

definition is_space :: "nat \<Rightarrow> bool" where
  "is_space c =
     (c \<in> {9, 10, 11, 12, 13, 28, 29, 30, 31, 32, 133, 160, 5760,
            8192, 8193, 8194, 8195, 8196, 8197, 8198, 8199, 8200, 8201, 8202,
            8232, 8233, 8239, 8287, 12288})"

definition strip :: "ustring \<Rightarrow> ustring" where
  "strip s = rev (dropWhile is_space (rev (dropWhile is_space s)))"

text \<open>
  A file opened for reading in text mode turns \<open>\r\n\<close> and a lone \<open>\r\<close> into \<open>\n\<close>; iterating
  over it yields the lines, each with its \<open>\n\<close> (the last line may lack one). Writing in text
  mode leaves \<open>\n\<close> as it is (the line separator of POSIX). The temporary file and the
  rename of \<open>save_state\<close> and \<open>save_known_channels\<close> are one step here.
\<close>

fun universal_newlines :: "ustring \<Rightarrow> ustring" where
  "universal_newlines [] = []"
| "universal_newlines [c] = [if c = CR then LF else c]"
| "universal_newlines (c # d # cs) =
     (if c = CR \<and> d = LF then LF # universal_newlines cs
      else (if c = CR then LF else c) # universal_newlines (d # cs))"

fun readlines :: "ustring \<Rightarrow> ustring list" where
  "readlines [] = []"
| "readlines (c # cs) =
     (if c = LF then [LF] # readlines cs
      else (case readlines cs of [] \<Rightarrow> [[c]] | l # ls \<Rightarrow> (c # l) # ls))"

primrec add_lines :: "ustring list \<Rightarrow> ustring set \<Rightarrow> ustring set" where
  "add_lines [] channels = channels"
| "add_lines (line # rest) channels =
     (let url = strip line
      in add_lines rest (if url \<noteq> [] then insert url channels else channels))"

definition load_known_channels :: "world \<Rightarrow> ustring set" where
  "load_known_channels w =
     (case output_file w of
        None \<Rightarrow> {}
      | Some content \<Rightarrow> add_lines (readlines (universal_newlines content)) {})"

text \<open>
  \<open>sorted(channels)\<close> orders strings by code point, the first difference deciding. Every
  code point is taken to be one that UTF-8 can write, as file operations do not fail.
\<close>

definition channels_text :: "ustring set \<Rightarrow> ustring" where
  "channels_text channels = concat (map (\<lambda>url. url @ [LF]) (sorted_list_of_set channels))"

definition save_known_channels :: "ustring set \<Rightarrow> world \<Rightarrow> world" where
  "save_known_channels channels w = w\<lparr>output_file := Some (channels_text channels)\<rparr>"

section \<open>Search client\<close>

text \<open>
  \<open>request_with_retries\<close>: the \<open>while True\<close> loop with its counter. \<open>attempt\<close> is the counter
  before \<open>attempt += 1\<close>. The loop ends because the counter reaches \<open>retries\<close>.
\<close>

function request_attempts ::
  "runtime \<Rightarrow> string \<Rightarrow> params \<Rightarrow> int \<Rightarrow> rat \<Rightarrow> int \<Rightarrow> world \<Rightarrow> (error + response) \<times> world" where
  "request_attempts env url ps retries delay attempt w =
     (let r = requests_get env url ps w
      in case fst r of
           Reply resp \<Rightarrow> (Inr resp, snd r)
         | NetworkError \<Rightarrow>
             if attempt + 1 \<ge> retries then (Inl RequestException, snd r)
             else request_attempts env url ps retries delay (attempt + 1)
                    (time_sleep delay (snd r)))"
  by pat_completeness auto
termination
  by (relation "measure (\<lambda>(env, url, ps, retries, delay, attempt, w). nat (retries - attempt))") auto

definition request_with_retries ::
  "runtime \<Rightarrow> string \<Rightarrow> params \<Rightarrow> int \<Rightarrow> rat \<Rightarrow> world \<Rightarrow> (error + response) \<times> world" where
  "request_with_retries env url ps retries delay w = request_attempts env url ps retries delay 0 w"

definition base_url :: string where
  "base_url = ''https://www.googleapis.com/youtube/v3/search''"

text \<open>
  \<open>search_videos_for_keyword\<close> calls \<open>request_with_retries\<close> with the defaults
  \<open>retries = 3\<close> and \<open>delay = 1.5\<close>. Its first result is \<open>None\<close> (\<open>JNull\<close>) for a status other than
  200 and for a body that does not parse.
\<close>

definition search_params :: "string \<Rightarrow> string \<Rightarrow> json \<Rightarrow> params" where
  "search_params keyword key page_token =
     [(''part'', JStr ''snippet''), (''type'', JStr ''video''), (''q'', JStr keyword),
      (''maxResults'', JInt 50), (''key'', JStr key)]
     @ (if truthy page_token then [(''pageToken'', page_token)] else [])"

definition search_videos_for_keyword ::
  "runtime \<Rightarrow> string \<Rightarrow> string \<Rightarrow> json \<Rightarrow> world \<Rightarrow> (error + json \<times> response) \<times> world" where
  "search_videos_for_keyword env keyword key page_token w =
     (let r = request_with_retries env base_url (search_params keyword key page_token) 3 (3 / 2) w
      in case fst r of
           Inl e \<Rightarrow> (Inl e, snd r)
         | Inr resp \<Rightarrow>
             if status_code resp \<noteq> 200 then (Inr (JNull, resp), snd r)
             else (case json_body resp of
                     None \<Rightarrow> (Inr (JNull, resp), snd r)
                   | Some data \<Rightarrow> (Inr (data, resp), snd r)))"

section \<open>Harvest orchestrator\<close>

text \<open>
  The configuration as \<open>load_config\<close> has validated it (\<open>search_keywords\<close> is its
  \<open>keywords\<close> entry). The two paths are the two files of the \<open>world\<close>.
\<close>

record config =
  api_keys :: "string list"
  search_keywords :: "string list"
  max_results_per_keyword :: int

text \<open>The variables of \<open>process_keyword\<close> that the page loop changes besides the state.\<close>

record locals =
  current_key_index :: int
  exhausted_keys :: "int set"
  api_key :: string

text \<open>
  How a call ends: it returns the state and the registry, the process exits with a status
  (\<open>sys.exit\<close>), an exception leaves it uncaught, or the page loop is still running when the
  fuel is used up.
\<close>

datatype outcome =
    Returned state "ustring set" world
  | Exited int world
  | Raised error world
  | Unfinished world

datatype step_result =
    Continue state "ustring set" locals world
  | Stop outcome

text \<open>The \<open>for item in items\<close> loop: the channel URL of every item that has a channel id.\<close>

definition channel_url :: "runtime \<Rightarrow> json \<Rightarrow> ustring" where
  "channel_url env channel_id =
     code_points ''https://www.youtube.com/channel/''
       @ (case channel_id of JStr s \<Rightarrow> code_points s | _ \<Rightarrow> str_of env channel_id)"

primrec add_channels :: "runtime \<Rightarrow> json list \<Rightarrow> ustring set \<Rightarrow> error + ustring set" where
  "add_channels env [] known_channels = Inr known_channels"
| "add_channels env (item # rest) known_channels =
     (case py_get item ''snippet'' (JDict []) of
        Inl e \<Rightarrow> Inl e
      | Inr snippet \<Rightarrow>
          (case py_get snippet ''channelId'' JNull of
             Inl e \<Rightarrow> Inl e
           | Inr channel_id \<Rightarrow>
               add_channels env rest
                 (if truthy channel_id then insert (channel_url env channel_id) known_channels
                  else known_channels)))"

text \<open>
  Lines 207 to 216: the items of the page are merged into the registry and counted. The
  result is the new registry and \<open>fetched\<close>.
\<close>

definition merge_page :: "runtime \<Rightarrow> json \<Rightarrow> ustring set \<Rightarrow> error + ustring set \<times> int" where
  "merge_page env data known_channels =
     (case py_get data ''items'' (JList []) of
        Inl e \<Rightarrow> Inl e
      | Inr items \<Rightarrow>
          (case py_iter items of
             Inl e \<Rightarrow> Inl e
           | Inr its \<Rightarrow>
               (case add_channels env its known_channels of
                  Inl e \<Rightarrow> Inl e
                | Inr known' \<Rightarrow>
                    (case py_len items of
                       Inl e \<Rightarrow> Inl e
                     | Inr fetched \<Rightarrow> Inr (known', fetched)))))"

text \<open>Lines 201 to 205: a failed request that is not a quota error.\<close>

definition on_failure :: "state \<Rightarrow> ustring set \<Rightarrow> world \<Rightarrow> step_result" where
  "on_failure st known_channels w =
     Stop (Returned st known_channels (save_known_channels known_channels (save_state st w)))"

text \<open>Lines 191 to 200: the current key has run out of quota.\<close>

definition on_quota :: "string list \<Rightarrow> state \<Rightarrow> ustring set \<Rightarrow> locals \<Rightarrow> world \<Rightarrow> step_result" where
  "on_quota keys st known_channels loc w =
     (let exhausted = insert (current_key_index loc) (exhausted_keys loc)
      in case get_next_api_key keys exhausted (current_key_index loc) of
           None \<Rightarrow> Stop (Exited 0 (save_known_channels known_channels (save_state st w)))
         | Some (idx, key) \<Rightarrow>
             Continue st known_channels
               \<lparr>current_key_index = idx, exhausted_keys = exhausted, api_key = key\<rparr> w)"

text \<open>Lines 207 to 235: a page has arrived.\<close>

definition on_page ::
  "runtime \<Rightarrow> string \<Rightarrow> config \<Rightarrow> state \<Rightarrow> kw_state \<Rightarrow> ustring set \<Rightarrow> locals \<Rightarrow> json \<Rightarrow> world
     \<Rightarrow> step_result" where
  "on_page env keyword cfg st ks known_channels loc data w =
     (case merge_page env data known_channels of
        Inl e \<Rightarrow> Stop (Raised e w)
      | Inr (known', fetched) \<Rightarrow>
          (case py_get data ''nextPageToken'' JNull of
             Inl e \<Rightarrow> Stop (Raised e w)
           | Inr token \<Rightarrow>
               (let ks' = ks\<lparr>fetched_count := fetched_count ks + fetched,
                              last_page_token := token\<rparr>;
                    st' = st(keyword \<mapsto> ks');
                    w' = save_known_channels known' (save_state st' w)
                in if fetched_count ks' \<ge> max_results_per_keyword cfg
                      \<or> \<not> truthy (last_page_token ks')
                   then (let st'' = st'(keyword \<mapsto> ks'\<lparr>completed := True\<rparr>)
                         in Stop (Returned st'' known' (save_state st'' w')))
                   else Continue st' known' loc (time_sleep (1 / 2) w'))))"

text \<open>
  Lines 181 and 182: the line printed at the head of the loop body, then the request for
  the page at the stored cursor with the current key.
\<close>

definition print_using :: "int \<Rightarrow> string \<Rightarrow> json \<Rightarrow> world \<Rightarrow> world" where
  "print_using idx keyword token w = w\<lparr>events := events w @ [UsingKey idx keyword token]\<rparr>"

definition fetch_page ::
  "runtime \<Rightarrow> string \<Rightarrow> locals \<Rightarrow> kw_state \<Rightarrow> world \<Rightarrow> (error + json \<times> response) \<times> world" where
  "fetch_page env keyword loc ks w =
     search_videos_for_keyword env keyword (api_key loc) (last_page_token ks)
       (print_using (current_key_index loc) keyword (last_page_token ks) w)"

text \<open>One pass through the body of the \<open>while\<close> loop, with the test at its head.\<close>

definition step ::
  "runtime \<Rightarrow> string \<Rightarrow> config \<Rightarrow> string list \<Rightarrow> state \<Rightarrow> ustring set \<Rightarrow> locals \<Rightarrow> world
     \<Rightarrow> step_result" where
  "step env keyword cfg keys st known_channels loc w =
     (case st keyword of
        None \<Rightarrow> Stop (Raised KeyError w)
      | Some ks \<Rightarrow>
          if completed ks then Stop (Returned st known_channels w)
          else
            (let r = fetch_page env keyword loc ks w
             in case fst r of
                  Inl e \<Rightarrow> Stop (Raised e (snd r))
                | Inr (data, resp) \<Rightarrow>
                    if data = JNull then
                      (if status_code resp = 403 then
                         (case handle_quota_error
                                 (case json_body resp of None \<Rightarrow> JDict [] | Some j \<Rightarrow> j) of
                            Inl e \<Rightarrow> Stop (Raised e (snd r))
                          | Inr quota \<Rightarrow>
                              if quota then on_quota keys st known_channels loc (snd r)
                              else on_failure st known_channels (snd r))
                       else on_failure st known_channels (snd r))
                    else on_page env keyword cfg st ks known_channels loc data (snd r)))"

text \<open>
  The page loop can run for ever (pages without items that always name a next page), so
  it is given fuel: one unit per pass.
\<close>

fun process_loop ::
  "nat \<Rightarrow> runtime \<Rightarrow> string \<Rightarrow> config \<Rightarrow> string list \<Rightarrow> state \<Rightarrow> ustring set \<Rightarrow> locals \<Rightarrow> world
     \<Rightarrow> outcome" where
  "process_loop 0 env keyword cfg keys st known_channels loc w = Unfinished w"
| "process_loop (Suc fuel) env keyword cfg keys st known_channels loc w =
     (case step env keyword cfg keys st known_channels loc w of
        Continue st' known' loc' w' \<Rightarrow> process_loop fuel env keyword cfg keys st' known' loc' w'
      | Stop out \<Rightarrow> out)"

definition new_kw_state :: kw_state where
  "new_kw_state = \<lparr>last_page_token = JNull, fetched_count = 0, completed = False\<rparr>"

definition process_keyword ::
  "nat \<Rightarrow> runtime \<Rightarrow> string \<Rightarrow> config \<Rightarrow> state \<Rightarrow> ustring set \<Rightarrow> string list \<Rightarrow> world \<Rightarrow> outcome" where
  "process_keyword fuel env keyword cfg state0 known_channels keys w =
     (let st = (case state0 keyword of
                  None \<Rightarrow> state0(keyword \<mapsto> new_kw_state)
                | Some ks \<Rightarrow> state0)
      in case st keyword of
           None \<Rightarrow> Raised KeyError w
         | Some ks \<Rightarrow>
             if completed ks then Returned st known_channels w
             else (case keys of
                     [] \<Rightarrow> Raised IndexError w
                   | key0 # _ \<Rightarrow>
                       process_loop fuel env keyword cfg keys st known_channels
                         \<lparr>current_key_index = 0, exhausted_keys = {}, api_key = key0\<rparr> w))"

text \<open>
  \<open>main\<close> after \<open>load_config\<close> has returned the configuration: the \<open>for\<close> loop over the
  keywords, then the end of the program, which is exit status 0.
\<close>

fun process_keywords ::
  "nat \<Rightarrow> runtime \<Rightarrow> config \<Rightarrow> string list \<Rightarrow> state \<Rightarrow> ustring set \<Rightarrow> world \<Rightarrow> outcome" where
  "process_keywords fuel env cfg [] st known_channels w = Exited 0 w"
| "process_keywords fuel env cfg (keyword # rest) st known_channels w =
     (case process_keyword fuel env keyword cfg st known_channels (api_keys cfg) w of
        Returned st' known' w' \<Rightarrow> process_keywords fuel env cfg rest st' known' w'
      | out \<Rightarrow> out)"

definition main :: "nat \<Rightarrow> runtime \<Rightarrow> config \<Rightarrow> world \<Rightarrow> outcome" where
  "main fuel env cfg w =
     process_keywords fuel env cfg (search_keywords cfg) (load_state w) (load_known_channels w) w"

fun world_of :: "outcome \<Rightarrow> world" where
  "world_of (Returned st known_channels w) = w"
| "world_of (Exited code w) = w"
| "world_of (Raised e w) = w"
| "world_of (Unfinished w) = w"

text \<open>
  What a pass through the loop body leaves behind: the world, and the state in memory when
  the program goes on (no state when the process has ended).
\<close>

fun result_world :: "step_result \<Rightarrow> world" where
  "result_world (Continue st known_channels loc w) = w"
| "result_world (Stop out) = world_of out"

fun result_state :: "step_result \<Rightarrow> state option" where
  "result_state (Continue st known_channels loc w) = Some st"
| "result_state (Stop (Returned st known_channels w)) = Some st"
| "result_state (Stop out) = None"

text \<open>
  \<open>counts_le a b\<close>: every keyword of \<open>a\<close> is a keyword of \<open>b\<close> with a \<open>fetched_count\<close> at least
  as large. \<open>invocations\<close> runs the program several times, each run on the files the run
  before it left, with its own fuel, surroundings and configuration.
\<close>

definition counts_le :: "state \<Rightarrow> state \<Rightarrow> bool" where
  "counts_le a b =
     (\<forall>k ks. a k = Some ks \<longrightarrow> (\<exists>ks'. b k = Some ks' \<and> fetched_count ks \<le> fetched_count ks'))"

primrec invocations :: "(nat \<times> runtime \<times> config) list \<Rightarrow> world \<Rightarrow> world" where
  "invocations [] w = w"
| "invocations (run # runs) w =
     invocations runs (world_of (main (fst run) (fst (snd run)) (snd (snd run)) w))"

section \<open>Scenarios\<close>

text \<open>Concrete surroundings on which the theorems below are run.\<close>

definition flaky :: runtime where
  "flaky = \<lparr>network = (\<lambda>k. if k < 2 then NetworkError
                              else Reply \<lparr>status_code = 500, json_body = None\<rparr>),
            str_of = (\<lambda>v. [])\<rparr>"

definition scripted :: "attempt list \<Rightarrow> runtime" where
  "scripted answers =
     \<lparr>network = (\<lambda>k. if k < length answers then answers ! k else NetworkError),
      str_of = (\<lambda>v. [])\<rparr>"

definition loc0 :: locals where
  "loc0 = \<lparr>current_key_index = 0, exhausted_keys = {}, api_key = ''k0''\<rparr>"

definition cfg1 :: config where
  "cfg1 = \<lparr>api_keys = [''k0'', ''k1''], search_keywords = [''btc'', ''eth''],
           max_results_per_keyword = 2\<rparr>"

definition first_request :: "string \<Rightarrow> string \<Rightarrow> event" where
  "first_request keyword key = Get base_url (search_params keyword key JNull)"

definition quota_body :: json where
  "quota_body =
     JDict [(''error'', JDict [(''errors'', JList [JDict [(''reason'', JStr ''quotaExceeded'')]])])]"

definition empty_page :: json where
  "empty_page = JDict [(''items'', JList [])]"

definition resumed_world :: world where
  "resumed_world =
     \<lparr>calls = 0, events = [],
      state_file = StateJson [''btc'' \<mapsto> \<lparr>last_page_token = JStr ''t5'', fetched_count = 5,
                                            completed = False\<rparr>],
      output_file = None\<rparr>"

definition rotation_run :: runtime where
  "rotation_run =
     scripted [Reply \<lparr>status_code = 403, json_body = Some quota_body\<rparr>,
               Reply \<lparr>status_code = 200, json_body = Some empty_page\<rparr>,
               Reply \<lparr>status_code = 200, json_body = Some empty_page\<rparr>]"

definition done_kw :: kw_state where
  "done_kw = \<lparr>last_page_token = JNull, fetched_count = 0, completed = True\<rparr>"

definition odd_quota_body :: json where
  "odd_quota_body =
     JDict [(''error'', JDict [(''errors'',
        JList [JDict [(''reason'', JStr ''quotaExceeded'')], JDict [(''reason'', JList [])]])])]"

definition forbidden_body :: json where
  "forbidden_body = JDict [(''error'', JStr ''Forbidden'')]"

definition null_items_page :: json where
  "null_items_page = JDict [(''items'', JNull)]"

section \<open>Properties of the credential rotation\<close>

lemma scan_offsets_None_iff:
  "scan_offsets keys ex c n offs = None \<longleftrightarrow> (\<forall>off\<in>set offs. (c + off) mod n \<in> ex)"
  by (induction offs) (auto simp: Let_def)

lemma scan_offsets_upto_Some:
  "scan_offsets keys ex c n [a..b] = Some r \<Longrightarrow>
     \<exists>off. a \<le> off \<and> off \<le> b \<and> fst r = (c + off) mod n \<and> fst r \<notin> ex
        \<and> snd r = keys ! nat (fst r)
        \<and> (\<forall>o'. a \<le> o' \<and> o' < off \<longrightarrow> (c + o') mod n \<in> ex)"
proof (induction a b rule: upto.induct)
  case (1 i j)
  show ?case
  proof (cases "i \<le> j")
    case False
    with "1.prems" show ?thesis by simp
  next
    case True
    then have unfold: "[i..j] = i # [i + 1..j]" by (rule upto_rec1)
    show ?thesis
    proof (cases "(c + i) mod n \<in> ex")
      case False
      with "1.prems" unfold have "r = ((c + i) mod n, keys ! nat ((c + i) mod n))"
        by (auto simp: Let_def)
      with False True show ?thesis by (intro exI[of _ i]) auto
    next
      case hit: True
      with "1.prems" unfold have "scan_offsets keys ex c n [i + 1..j] = Some r"
        by (simp add: Let_def)
      from "1.IH"[OF True this] obtain off where off:
        "i + 1 \<le> off" "off \<le> j" "fst r = (c + off) mod n" "fst r \<notin> ex"
        "snd r = keys ! nat (fst r)"
        "\<forall>o'. i + 1 \<le> o' \<and> o' < off \<longrightarrow> (c + o') mod n \<in> ex"
        by blast
      have "\<forall>o'. i \<le> o' \<and> o' < off \<longrightarrow> (c + o') mod n \<in> ex"
      proof (intro allI impI)
        fix o' assume "i \<le> o' \<and> o' < off"
        then consider "o' = i" | "i + 1 \<le> o' \<and> o' < off" by linarith
        then show "(c + o') mod n \<in> ex" using hit off(6) by cases auto
      qed
      with off show ?thesis by (intro exI[of _ off]) auto
    qed
  qed
qed

lemma round_robin_covers:
  fixes n c i :: int
  assumes "0 \<le> i" "i < n"
  shows "\<exists>off. 1 \<le> off \<and> off \<le> n \<and> (c + off) mod n = i"
proof -
  let ?off = "(i - c - 1) mod n + 1"
  from assms have n: "0 < n" by linarith
  have "0 \<le> (i - c - 1) mod n" "(i - c - 1) mod n < n" using n by simp_all
  then have "1 \<le> ?off" "?off \<le> n" by linarith+
  moreover have "(c + ?off) mod n = (c + 1 + (i - c - 1) mod n) mod n" by (simp add: algebra_simps)
  then have "(c + ?off) mod n = (c + 1 + (i - c - 1)) mod n" by (simp add: mod_add_right_eq)
  then have "(c + ?off) mod n = i" using assms by simp
  ultimately show ?thesis by blast
qed

text \<open>
  Claim C2. For a non-empty key list of size \<open>N\<close>, any exhausted set and any current index,
  \<open>get_next_api_key\<close> returns the first index outside the exhausted set met when scanning
  the offsets \<open>1, ..., N\<close> from the current index modulo \<open>N\<close>, together with the key at that
  index; it returns \<open>None\<close> exactly when every index \<open>0, ..., N - 1\<close> is exhausted.
\<close>

theorem get_next_api_key_round_robin:
  assumes "keys \<noteq> []"
  shows "(get_next_api_key keys exhausted current_index = None
            \<longleftrightarrow> (\<forall>i. 0 \<le> i \<and> i < int (length keys) \<longrightarrow> i \<in> exhausted))
       \<and> (\<forall>idx key. get_next_api_key keys exhausted current_index = Some (idx, key) \<longrightarrow>
            (\<exists>off. 1 \<le> off \<and> off \<le> int (length keys)
               \<and> idx = (current_index + off) mod int (length keys)
               \<and> 0 \<le> idx \<and> idx < int (length keys)
               \<and> idx \<notin> exhausted
               \<and> key = keys ! nat idx
               \<and> (\<forall>o'. 1 \<le> o' \<and> o' < off
                     \<longrightarrow> (current_index + o') mod int (length keys) \<in> exhausted)))"
proof (intro conjI allI impI)
  let ?n = "int (length keys)"
  from assms have n: "0 < ?n" by simp
  show "get_next_api_key keys exhausted current_index = None
          \<longleftrightarrow> (\<forall>i. 0 \<le> i \<and> i < ?n \<longrightarrow> i \<in> exhausted)"
  proof
    assume "get_next_api_key keys exhausted current_index = None"
    then have all: "\<forall>off\<in>{1..?n}. (current_index + off) mod ?n \<in> exhausted"
      by (simp add: get_next_api_key_def Let_def scan_offsets_None_iff)
    show "\<forall>i. 0 \<le> i \<and> i < ?n \<longrightarrow> i \<in> exhausted"
    proof (intro allI impI)
      fix i assume "0 \<le> i \<and> i < ?n"
      then obtain off where "1 \<le> off" "off \<le> ?n" "(current_index + off) mod ?n = i"
        using round_robin_covers[of i ?n current_index] by blast
      with all show "i \<in> exhausted" by auto
    qed
  next
    assume all: "\<forall>i. 0 \<le> i \<and> i < ?n \<longrightarrow> i \<in> exhausted"
    have "\<forall>off\<in>{1..?n}. (current_index + off) mod ?n \<in> exhausted"
      using all n by simp
    then show "get_next_api_key keys exhausted current_index = None"
      by (simp add: get_next_api_key_def Let_def scan_offsets_None_iff)
  qed
next
  fix idx key
  let ?n = "int (length keys)"
  from assms have n: "0 < ?n" by simp
  assume "get_next_api_key keys exhausted current_index = Some (idx, key)"
  then have "scan_offsets keys exhausted current_index ?n [1..?n] = Some (idx, key)"
    by (simp add: get_next_api_key_def Let_def)
  from scan_offsets_upto_Some[OF this] obtain off where
    "1 \<le> off" "off \<le> ?n" "idx = (current_index + off) mod ?n" "idx \<notin> exhausted"
    "key = keys ! nat idx"
    "\<forall>o'. 1 \<le> o' \<and> o' < off \<longrightarrow> (current_index + o') mod ?n \<in> exhausted"
    by auto
  moreover from this n have "0 \<le> idx" "idx < ?n" by simp_all
  ultimately show "\<exists>off. 1 \<le> off \<and> off \<le> ?n
               \<and> idx = (current_index + off) mod ?n
               \<and> 0 \<le> idx \<and> idx < ?n
               \<and> idx \<notin> exhausted
               \<and> key = keys ! nat idx
               \<and> (\<forall>o'. 1 \<le> o' \<and> o' < off
                     \<longrightarrow> (current_index + o') mod ?n \<in> exhausted)"
    by blast
qed

theorem get_next_api_key_round_robin_witness:
  "[''a'', ''b'', ''c''] \<noteq> ([] :: string list)
   \<and> get_next_api_key [''a'', ''b'', ''c''] {0, 1} 0 = Some (2, ''c'')
   \<and> (\<exists>off. 1 \<le> off \<and> off \<le> 3 \<and> (2::int) = (0 + off) mod 3 \<and> (2::int) \<notin> {0, 1}
         \<and> (\<forall>o'. 1 \<le> o' \<and> o' < off \<longrightarrow> (0 + o') mod 3 \<in> {0, 1::int}))"
proof -
  have ne: "[''a'', ''b'', ''c''] \<noteq> ([] :: string list)" by simp
  have run: "get_next_api_key [''a'', ''b'', ''c''] {0, 1} 0 = Some (2, ''c'')"
    by (simp add: get_next_api_key_def Let_def upto.simps)
  from get_next_api_key_round_robin [OF ne, of "{0, 1}" 0] run
  have "\<exists>off. 1 \<le> off \<and> off \<le> 3 \<and> (2::int) = (0 + off) mod 3 \<and> (2::int) \<notin> {0, 1}
         \<and> (\<forall>o'. 1 \<le> o' \<and> o' < off \<longrightarrow> (0 + o') mod 3 \<in> {0, 1::int})"
    by simp
  with ne run show ?thesis by blast
qed

section \<open>Properties of the search client\<close>

declare request_attempts.simps [simp del]

lemma request_attempts_reply:
  "network env (calls w) = Reply resp \<Longrightarrow>
   request_attempts env url ps retries delay attempt w =
     (Inr resp, w\<lparr>calls := Suc (calls w), events := events w @ [Get url ps]\<rparr>)"
  by (subst request_attempts.simps) (simp add: requests_get_def Let_def)

lemma request_attempts_last:
  "network env (calls w) = NetworkError \<Longrightarrow> retries \<le> attempt + 1 \<Longrightarrow>
   request_attempts env url ps retries delay attempt w =
     (Inl RequestException, w\<lparr>calls := Suc (calls w), events := events w @ [Get url ps]\<rparr>)"
  by (subst request_attempts.simps) (simp add: requests_get_def Let_def)

lemma request_attempts_again:
  "network env (calls w) = NetworkError \<Longrightarrow> attempt + 1 < retries \<Longrightarrow>
   request_attempts env url ps retries delay attempt w =
     request_attempts env url ps retries delay (attempt + 1)
       (w\<lparr>calls := Suc (calls w), events := events w @ [Get url ps, Sleep delay]\<rparr>)"
  by (subst request_attempts.simps) (simp add: requests_get_def Let_def time_sleep_def)

text \<open>
  Claim C4. With the default policy (\<open>retries = 3\<close>, \<open>delay = 1.5\<close>) a response of any
  status is returned at once, without a retry; after a network failure the same request is
  sent again after a pause of 1.5, at most three times in all; when the third attempt
  fails as well, \<open>RequestException\<close> goes to the caller.
\<close>

theorem request_with_retries_policy:
  "(\<forall>resp. network env (calls w) = Reply resp \<longrightarrow>
      request_with_retries env url ps 3 (3 / 2) w =
        (Inr resp, w\<lparr>calls := calls w + 1, events := events w @ [Get url ps]\<rparr>))
   \<and> (\<forall>resp. network env (calls w) = NetworkError \<and> network env (calls w + 1) = Reply resp \<longrightarrow>
      request_with_retries env url ps 3 (3 / 2) w =
        (Inr resp, w\<lparr>calls := calls w + 2,
                     events := events w @ [Get url ps, Sleep (3 / 2), Get url ps]\<rparr>))
   \<and> (\<forall>resp. network env (calls w) = NetworkError \<and> network env (calls w + 1) = NetworkError
          \<and> network env (calls w + 2) = Reply resp \<longrightarrow>
      request_with_retries env url ps 3 (3 / 2) w =
        (Inr resp, w\<lparr>calls := calls w + 3,
                     events := events w @ [Get url ps, Sleep (3 / 2), Get url ps,
                                           Sleep (3 / 2), Get url ps]\<rparr>))
   \<and> (network env (calls w) = NetworkError \<and> network env (calls w + 1) = NetworkError
          \<and> network env (calls w + 2) = NetworkError \<longrightarrow>
      request_with_retries env url ps 3 (3 / 2) w =
        (Inl RequestException, w\<lparr>calls := calls w + 3,
                     events := events w @ [Get url ps, Sleep (3 / 2), Get url ps,
                                           Sleep (3 / 2), Get url ps]\<rparr>))"
proof (intro conjI allI impI)
  fix resp assume "network env (calls w) = Reply resp"
  then show "request_with_retries env url ps 3 (3 / 2) w =
        (Inr resp, w\<lparr>calls := calls w + 1, events := events w @ [Get url ps]\<rparr>)"
    by (simp add: request_with_retries_def request_attempts_reply)
next
  fix resp
  assume "network env (calls w) = NetworkError \<and> network env (calls w + 1) = Reply resp"
  then show "request_with_retries env url ps 3 (3 / 2) w =
        (Inr resp, w\<lparr>calls := calls w + 2,
                     events := events w @ [Get url ps, Sleep (3 / 2), Get url ps]\<rparr>)"
    by (simp add: request_with_retries_def request_attempts_again request_attempts_reply)
next
  fix resp
  assume "network env (calls w) = NetworkError \<and> network env (calls w + 1) = NetworkError
          \<and> network env (calls w + 2) = Reply resp"
  then show "request_with_retries env url ps 3 (3 / 2) w =
        (Inr resp, w\<lparr>calls := calls w + 3,
                     events := events w @ [Get url ps, Sleep (3 / 2), Get url ps,
                                           Sleep (3 / 2), Get url ps]\<rparr>)"
    by (simp add: request_with_retries_def request_attempts_again request_attempts_reply)
next
  assume "network env (calls w) = NetworkError \<and> network env (calls w + 1) = NetworkError
          \<and> network env (calls w + 2) = NetworkError"
  then show "request_with_retries env url ps 3 (3 / 2) w =
        (Inl RequestException, w\<lparr>calls := calls w + 3,
                     events := events w @ [Get url ps, Sleep (3 / 2), Get url ps,
                                           Sleep (3 / 2), Get url ps]\<rparr>)"
    by (simp add: request_with_retries_def request_attempts_again request_attempts_last)
qed

theorem request_with_retries_policy_witness:
  "network flaky (calls initial_world) = NetworkError
   \<and> network flaky (calls initial_world + 1) = NetworkError
   \<and> network flaky (calls initial_world + 2) = Reply \<lparr>status_code = 500, json_body = None\<rparr>
   \<and> request_with_retries flaky ''u'' [] 3 (3 / 2) initial_world =
        (Inr \<lparr>status_code = 500, json_body = None\<rparr>,
         \<lparr>calls = 3, events = [Get ''u'' [], Sleep (3 / 2), Get ''u'' [], Sleep (3 / 2), Get ''u'' []],
          state_file = NoFile, output_file = None\<rparr>)"
  using request_with_retries_policy [of flaky initial_world "''u''" "[]"]
  by (simp add: flaky_def initial_world_def)

section \<open>One pass through the page loop\<close>

text \<open>Requests never touch the two files, and a reply on the first attempt is the page.\<close>

lemma request_attempts_files:
  "request_attempts env url ps retries delay attempt w = (res, w1) \<Longrightarrow>
   state_file w1 = state_file w \<and> output_file w1 = output_file w"
proof (induction env url ps retries delay attempt w arbitrary: res w1
       rule: request_attempts.induct)
  case (1 env url ps retries delay attempt w)
  show ?case
  proof (cases "network env (calls w)")
    case (Reply resp)
    with "1.prems" show ?thesis by (auto simp: request_attempts_reply)
  next
    case NetworkError
    show ?thesis
    proof (cases "retries \<le> attempt + 1")
      case True
      with NetworkError "1.prems" show ?thesis by (auto simp: request_attempts_last)
    next
      case False
      then have lt: "attempt + 1 < retries" by simp
      have r: "fst (requests_get env url ps w) = NetworkError"
        using NetworkError by (simp add: requests_get_def)
      from "1.prems" NetworkError lt
      have "request_attempts env url ps retries delay (attempt + 1)
              (time_sleep delay (snd (requests_get env url ps w))) = (res, w1)"
        by (simp add: request_attempts_again requests_get_def time_sleep_def)
      from "1.IH"[OF refl r False this]
      show ?thesis by (simp add: requests_get_def time_sleep_def)
    qed
  qed
qed

lemma search_videos_world:
  "snd (search_videos_for_keyword env keyword key token w) =
     snd (request_attempts env base_url (search_params keyword key token) 3 (3 / 2) 0 w)"
  by (auto simp: search_videos_for_keyword_def Let_def request_with_retries_def
           split: sum.splits option.splits)

lemma fetch_page_files:
  assumes "fetch_page env keyword loc ks w = (res, w1)"
  shows "state_file w1 = state_file w \<and> output_file w1 = output_file w"
proof -
  let ?w0 = "print_using (current_key_index loc) keyword (last_page_token ks) w"
  let ?ps = "search_params keyword (api_key loc) (last_page_token ks)"
  from assms have w1: "w1 = snd (request_attempts env base_url ?ps 3 (3 / 2) 0 ?w0)"
    by (simp add: fetch_page_def search_videos_world [symmetric])
  have "request_attempts env base_url ?ps 3 (3 / 2) 0 ?w0
          = (fst (request_attempts env base_url ?ps 3 (3 / 2) 0 ?w0), w1)"
    by (simp add: w1)
  from request_attempts_files[OF this] show ?thesis by (simp add: print_using_def)
qed

lemma fetch_page_null:
  "fetch_page env keyword loc ks w = (Inr (data, resp), w1) \<Longrightarrow>
   status_code resp \<noteq> 200 \<or> json_body resp = None \<Longrightarrow> data = JNull"
  by (auto simp: fetch_page_def search_videos_for_keyword_def Let_def
           split: sum.splits if_splits option.splits)

lemma fetch_page_data:
  "fetch_page env keyword loc ks w = (Inr (data, resp), w1) \<Longrightarrow> data \<noteq> JNull \<Longrightarrow>
   status_code resp = 200 \<and> json_body resp = Some data"
  by (auto simp: fetch_page_def search_videos_for_keyword_def Let_def
           split: sum.splits if_splits option.splits)

lemma fetch_page_reply:
  "network env (calls w) = Reply resp \<Longrightarrow>
   fetch_page env keyword loc ks w =
     (Inr (if status_code resp \<noteq> 200 then JNull
           else (case json_body resp of None \<Rightarrow> JNull | Some d \<Rightarrow> d), resp),
      w\<lparr>calls := Suc (calls w),
        events := events w @ [UsingKey (current_key_index loc) keyword (last_page_token ks),
          Get base_url (search_params keyword (api_key loc) (last_page_token ks))]\<rparr>)"
  by (simp add: fetch_page_def search_videos_for_keyword_def Let_def request_with_retries_def
        request_attempts_reply print_using_def split: option.splits)

lemma step_failure:
  assumes "st keyword = Some ks" "\<not> completed ks"
    and "fetch_page env keyword loc ks w = (Inr (JNull, resp), w1)"
    and "status_code resp = 403 \<longrightarrow>
           handle_quota_error (case json_body resp of None \<Rightarrow> JDict [] | Some j \<Rightarrow> j) = Inr False"
  shows "step env keyword cfg keys st known loc w =
           Stop (Returned st known
             (w1\<lparr>state_file := StateJson st, output_file := Some (channels_text known)\<rparr>))"
  using assms
  by (cases "status_code resp = 403")
     (simp_all add: step_def Let_def on_failure_def save_state_def save_known_channels_def)

lemma handle_quota_error_empty: "handle_quota_error (JDict []) = Inr False"
  by (simp add: handle_quota_error_def)

text \<open>
  Claim C10. A 403 response whose body is not JSON: \<open>process_keyword\<close> passes the empty dict
  to \<open>handle_quota_error\<close>, which answers \<open>False\<close>, so no key is marked exhausted and none
  is rotated in; state and registry are written as they are in memory and the keyword's
  loop returns with the state unchanged (\<open>completed\<close> still false, same cursor).
\<close>

theorem unparseable_403_stops_keyword:
  assumes "st keyword = Some ks" "\<not> completed ks"
    and "fetch_page env keyword loc ks w = (Inr (data, resp), w1)"
    and "status_code resp = 403" "json_body resp = None"
  shows "handle_quota_error (JDict []) = Inr False
       \<and> step env keyword cfg keys st known loc w =
           Stop (Returned st known
             (w1\<lparr>state_file := StateJson st, output_file := Some (channels_text known)\<rparr>))
       \<and> state_file w1 = state_file w \<and> output_file w1 = output_file w"
proof -
  from assms(3,4) have "data = JNull" by (auto dest: fetch_page_null)
  with assms show ?thesis
    by (simp add: step_failure handle_quota_error_empty fetch_page_files)
qed

theorem unparseable_403_stops_keyword_witness:
  "step (scripted [Reply \<lparr>status_code = 403, json_body = None\<rparr>]) ''btc'' cfg1 [''k0'', ''k1'']
      [''btc'' \<mapsto> new_kw_state] {} loc0 initial_world =
     Stop (Returned [''btc'' \<mapsto> new_kw_state] {}
       \<lparr>calls = 1, events = [UsingKey 0 ''btc'' JNull, first_request ''btc'' ''k0''],
        state_file = StateJson [''btc'' \<mapsto> new_kw_state], output_file = Some []\<rparr>)"
proof -
  let ?env = "scripted [Reply \<lparr>status_code = 403, json_body = None\<rparr>]"
  have a: "[''btc'' \<mapsto> new_kw_state] ''btc'' = Some new_kw_state" by simp
  have b: "\<not> completed new_kw_state" by (simp add: new_kw_state_def)
  have c: "fetch_page ?env ''btc'' loc0 new_kw_state initial_world =
      (Inr (JNull, \<lparr>status_code = 403, json_body = None\<rparr>),
       \<lparr>calls = 1, events = [UsingKey 0 ''btc'' JNull, first_request ''btc'' ''k0''],
        state_file = NoFile, output_file = None\<rparr>)"
    by (simp add: fetch_page_reply scripted_def initial_world_def new_kw_state_def loc0_def
          first_request_def)
  from unparseable_403_stops_keyword
         [where st = "[''btc'' \<mapsto> new_kw_state]" and keyword = "''btc''"
            and cfg = cfg1 and keys = "[''k0'', ''k1'']" and known = "{}", OF a b c]
  show ?thesis by (simp add: channels_text_def)
qed

lemma step_quota:
  assumes "st keyword = Some ks" "\<not> completed ks"
    and "fetch_page env keyword loc ks w = (Inr (JNull, resp), w1)"
    and "status_code resp = 403" "json_body resp = Some body"
    and "handle_quota_error body = Inr True"
  shows "step env keyword cfg keys st known loc w = on_quota keys st known loc w1"
  using assms by (simp add: step_def Let_def)

lemma handle_quota_error_quota_body: "handle_quota_error quota_body = Inr True"
  by (simp add: handle_quota_error_def quota_body_def)



lemma step_page:
  assumes "st keyword = Some ks" "\<not> completed ks"
    and "fetch_page env keyword loc ks w = (Inr (data, resp), w1)" "data \<noteq> JNull"
  shows "step env keyword cfg keys st known loc w =
           on_page env keyword cfg st ks known loc data w1"
  using assms by (simp add: step_def Let_def)

lemma step_raise:
  assumes "st keyword = Some ks" "\<not> completed ks"
    and "fetch_page env keyword loc ks w = (Inl e, w1)"
  shows "step env keyword cfg keys st known loc w = Stop (Raised e w1)"
  using assms by (simp add: step_def Let_def)

lemma on_page_merged:
  assumes "merge_page env data known = Inr (known', fetched)"
    and "py_get data ''nextPageToken'' JNull = Inr token"
  shows "on_page env keyword cfg st ks known loc data w1 =
     (if fetched_count ks + fetched \<ge> max_results_per_keyword cfg \<or> \<not> truthy token
      then Stop (Returned
             (st(keyword \<mapsto> ks\<lparr>fetched_count := fetched_count ks + fetched,
                                  last_page_token := token, completed := True\<rparr>))
             known'
             (w1\<lparr>state_file := StateJson
                   (st(keyword \<mapsto> ks\<lparr>fetched_count := fetched_count ks + fetched,
                                        last_page_token := token, completed := True\<rparr>)),
                 output_file := Some (channels_text known')\<rparr>))
      else Continue
             (st(keyword \<mapsto> ks\<lparr>fetched_count := fetched_count ks + fetched,
                                  last_page_token := token\<rparr>))
             known' loc
             (w1\<lparr>state_file := StateJson
                   (st(keyword \<mapsto> ks\<lparr>fetched_count := fetched_count ks + fetched,
                                        last_page_token := token\<rparr>)),
                 output_file := Some (channels_text known'),
                 events := events w1 @ [Sleep (1 / 2)]\<rparr>))"
  using assms
  by (simp add: on_page_def Let_def save_state_def save_known_channels_def time_sleep_def)

lemma on_page_raised:
  assumes "merge_page env data known = Inl e \<or> py_get data ''nextPageToken'' JNull = Inl e"
  shows "\<exists>e'. on_page env keyword cfg st ks known loc data w1 = Stop (Raised e' w1)"
  using assms by (auto simp: on_page_def split: sum.splits prod.splits)

lemma on_quota_cases:
  "(\<exists>w'. on_quota keys st known loc w1 = Stop (Exited 0 w'))
   \<or> (\<exists>loc'. on_quota keys st known loc w1 = Continue st known loc' w1)"
  by (auto simp: on_quota_def Let_def split: option.splits)


lemma step_null:
  assumes "st keyword = Some ks" "\<not> completed ks"
    and "fetch_page env keyword loc ks w = (Inr (JNull, resp), w1)"
  shows "(\<exists>w'. step env keyword cfg keys st known loc w = Stop (Returned st known w'))
       \<or> (\<exists>w'. step env keyword cfg keys st known loc w = Stop (Exited 0 w'))
       \<or> (\<exists>e. step env keyword cfg keys st known loc w = Stop (Raised e w1))
       \<or> (\<exists>loc'. step env keyword cfg keys st known loc w = Continue st known loc' w1)"
proof (cases "status_code resp = 403")
  case False
  with assms show ?thesis by (simp add: step_def Let_def on_failure_def)
next
  case True
  show ?thesis
  proof (cases "handle_quota_error (case json_body resp of None \<Rightarrow> JDict [] | Some j \<Rightarrow> j)")
    case (Inl e)
    with assms True show ?thesis by (simp add: step_def Let_def)
  next
    case (Inr quota)
    show ?thesis
    proof (cases quota)
      case False
      with assms True Inr show ?thesis by (simp add: step_def Let_def on_failure_def)
    next
      case q: True
      with assms True Inr
      have "step env keyword cfg keys st known loc w = on_quota keys st known loc w1"
        by (simp add: step_def Let_def)
      with on_quota_cases[of keys st known loc w1] show ?thesis by auto
    qed
  qed
qed

lemma step_completed_post:
  assumes "st keyword = Some ks" "\<not> completed ks"
  shows "(\<forall>st' known' w' ks'. step env keyword cfg keys st known loc w = Stop (Returned st' known' w')
            \<and> st' keyword = Some ks' \<and> completed ks'
            \<longrightarrow> max_results_per_keyword cfg \<le> fetched_count ks' \<or> \<not> truthy (last_page_token ks'))
       \<and> (\<forall>st' known' loc' w'. step env keyword cfg keys st known loc w = Continue st' known' loc' w'
            \<longrightarrow> (\<exists>ks'. st' keyword = Some ks' \<and> \<not> completed ks'))"
proof -
  let ?step = "step env keyword cfg keys st known loc w"
  obtain res w1 where f: "fetch_page env keyword loc ks w = (res, w1)"
    by (cases "fetch_page env keyword loc ks w")
  show ?thesis
  proof (cases res)
    case (Inl e)
    with f assms have "?step = Stop (Raised e w1)" by (simp add: step_raise)
    then show ?thesis by simp
  next
    case (Inr dr)
    obtain data resp where dr: "dr = (data, resp)" by (cases dr)
    show ?thesis
    proof (cases "data = JNull")
      case True
      with f Inr dr have f': "fetch_page env keyword loc ks w = (Inr (JNull, resp), w1)" by simp
      from step_null[where st = st and keyword = keyword and cfg = cfg and keys = keys
                       and known = known, OF assms f'] assms
      show ?thesis by auto
    next
      case nn: False
      with f Inr dr assms
      have s: "?step = on_page env keyword cfg st ks known loc data w1" by (simp add: step_page)
      show ?thesis
      proof (cases "merge_page env data known")
        case (Inl e)
        then obtain e' where "on_page env keyword cfg st ks known loc data w1 = Stop (Raised e' w1)"
          using on_page_raised[of env data known e] by blast
        with s show ?thesis by simp
      next
        case m: (Inr kf)
        obtain known' fetched where kf: "kf = (known', fetched)" by (cases kf)
        show ?thesis
        proof (cases "py_get data ''nextPageToken'' JNull")
          case (Inl e)
          then obtain e' where "on_page env keyword cfg st ks known loc data w1 = Stop (Raised e' w1)"
            using on_page_raised[of env data known e] by blast
          with s show ?thesis by simp
        next
          case t: (Inr token)
          from m kf have m': "merge_page env data known = Inr (known', fetched)" by simp
          from on_page_merged[OF m' t] s assms(2)
          show ?thesis by (auto split: if_splits)
        qed
      qed
    qed
  qed
qed

lemma process_loop_completed_post:
  assumes "st keyword = Some ks" "\<not> completed ks"
    and "process_loop fuel env keyword cfg keys st known loc w = Returned st' known' w'"
    and "st' keyword = Some ks'" "completed ks'"
  shows "max_results_per_keyword cfg \<le> fetched_count ks' \<or> \<not> truthy (last_page_token ks')"
  using assms
proof (induction fuel arbitrary: st ks known loc w)
  case 0
  then show ?case by simp
next
  case (Suc fuel)
  note post = step_completed_post[where st = st and keyword = keyword and env = env and cfg = cfg
      and keys = keys and known = known and loc = loc and w = w, OF Suc.prems(1,2)]
  show ?case
  proof (cases "step env keyword cfg keys st known loc w")
    case (Continue st1 known1 loc1 w1)
    with post obtain ks1 where ks1: "st1 keyword = Some ks1" "\<not> completed ks1" by blast
    from Suc.prems(3) Continue
    have "process_loop fuel env keyword cfg keys st1 known1 loc1 w1 = Returned st' known' w'"
      by simp
    from Suc.IH[OF ks1 this Suc.prems(4,5)] show ?thesis .
  next
    case (Stop out)
    with Suc.prems(3) have "step env keyword cfg keys st known loc w = Stop (Returned st' known' w')"
      by simp
    with post Suc.prems(4,5) show ?thesis by blast
  qed
qed

text \<open>
  When the flag is set. In a pass for a keyword that is not completed, the flag ends up
  true exactly when a page was fetched, its items were merged without an exception, and
  then either the new \<open>fetched_count\<close> has reached \<open>max_results_per_keyword\<close> or the page's
  \<open>nextPageToken\<close> is absent (Python tests it with \<open>not\<close>, so a null or empty token counts
  as absent). A pass that goes round the loop again leaves the flag false. A first page
  without items and without token completes the keyword with \<open>fetched_count = 0\<close>. Whenever
  the page loop of a keyword returns with the flag true, the stored count has reached the
  cap or the stored cursor is absent.
\<close>

lemma merged_page_completes_iff:
  assumes "st keyword = Some ks" "\<not> completed ks"
  shows "((\<exists>st' known' w' ks'. step env keyword cfg keys st known loc w = Stop (Returned st' known' w')
              \<and> st' keyword = Some ks' \<and> completed ks')
          \<longleftrightarrow>
          (\<exists>data resp w1 known' fetched token.
              fetch_page env keyword loc ks w = (Inr (data, resp), w1) \<and> data \<noteq> JNull
            \<and> merge_page env data known = Inr (known', fetched)
            \<and> py_get data ''nextPageToken'' JNull = Inr token
            \<and> (fetched_count ks + fetched \<ge> max_results_per_keyword cfg \<or> \<not> truthy token)))
       \<and> (\<forall>st' known' loc' w'. step env keyword cfg keys st known loc w = Continue st' known' loc' w'
              \<longrightarrow> (\<exists>ks'. st' keyword = Some ks' \<and> \<not> completed ks'))
       \<and> (\<forall>data resp w1.
              fetch_page env keyword loc ks w = (Inr (data, resp), w1) \<and> data \<noteq> JNull
            \<and> py_get data ''items'' (JList []) = Inr (JList [])
            \<and> py_get data ''nextPageToken'' JNull = Inr JNull
            \<and> fetched_count ks = 0
            \<longrightarrow> step env keyword cfg keys st known loc w =
                  Stop (Returned
                    (st(keyword \<mapsto> \<lparr>last_page_token = JNull, fetched_count = 0, completed = True\<rparr>))
                    known
                    (w1\<lparr>state_file := StateJson
                          (st(keyword \<mapsto> \<lparr>last_page_token = JNull, fetched_count = 0,
                                             completed = True\<rparr>)),
                        output_file := Some (channels_text known)\<rparr>)))
       \<and> (\<forall>fuel st' known' w' ks'.
              process_loop fuel env keyword cfg keys st known loc w = Returned st' known' w'
            \<and> st' keyword = Some ks' \<and> completed ks'
            \<longrightarrow> max_results_per_keyword cfg \<le> fetched_count ks'
                \<or> \<not> truthy (last_page_token ks'))"
proof -
  obtain res w1 where f: "fetch_page env keyword loc ks w = (res, w1)"
    by (cases "fetch_page env keyword loc ks w")
  let ?step = "step env keyword cfg keys st known loc w"
  let ?L = "\<exists>st' known' w' ks'. ?step = Stop (Returned st' known' w')
              \<and> st' keyword = Some ks' \<and> completed ks'"
  let ?R = "\<exists>data resp w1 known' fetched token.
              fetch_page env keyword loc ks w = (Inr (data, resp), w1) \<and> data \<noteq> JNull
            \<and> merge_page env data known = Inr (known', fetched)
            \<and> py_get data ''nextPageToken'' JNull = Inr token
            \<and> (fetched_count ks + fetched \<ge> max_results_per_keyword cfg \<or> \<not> truthy token)"
  let ?C = "\<forall>st' known' loc' w'. ?step = Continue st' known' loc' w'
              \<longrightarrow> (\<exists>ks'. st' keyword = Some ks' \<and> \<not> completed ks')"
  have main: "(?L \<longleftrightarrow> ?R) \<and> ?C"
  proof (cases res)
    case (Inl e)
    with f assms have "?step = Stop (Raised e w1)" by (simp add: step_raise)
    with f Inl show ?thesis by simp
  next
    case (Inr dr)
    obtain data resp where dr: "dr = (data, resp)" by (cases dr)
    show ?thesis
    proof (cases "data = JNull")
      case True
      with f Inr dr have f': "fetch_page env keyword loc ks w = (Inr (JNull, resp), w1)" by simp
      from step_null[where st = st and keyword = keyword and cfg = cfg and keys = keys and known = known, OF assms f'] assms f' show ?thesis by auto
    next
      case nn: False
      with f Inr dr assms
      have s: "?step = on_page env keyword cfg st ks known loc data w1" by (simp add: step_page)
      show ?thesis
      proof (cases "merge_page env data known")
        case (Inl e)
        then obtain e' where "on_page env keyword cfg st ks known loc data w1 = Stop (Raised e' w1)"
          using on_page_raised[of env data known e] by blast
        with s f Inr dr Inl show ?thesis by simp
      next
        case m: (Inr kf)
        obtain known' fetched where kf: "kf = (known', fetched)" by (cases kf)
        show ?thesis
        proof (cases "py_get data ''nextPageToken'' JNull")
          case (Inl e)
          then obtain e' where "on_page env keyword cfg st ks known loc data w1 = Stop (Raised e' w1)"
            using on_page_raised[of env data known e] by blast
          with s f Inr dr Inl show ?thesis by simp
        next
          case t: (Inr token)
          from m kf have m': "merge_page env data known = Inr (known', fetched)" by simp
          from on_page_merged[OF m' t] s f Inr dr m' t assms(2) nn
          show ?thesis by (simp split: if_splits)
        qed
      qed
    qed
  qed
  have edge: "\<forall>data resp w1.
              fetch_page env keyword loc ks w = (Inr (data, resp), w1) \<and> data \<noteq> JNull
            \<and> py_get data ''items'' (JList []) = Inr (JList [])
            \<and> py_get data ''nextPageToken'' JNull = Inr JNull
            \<and> fetched_count ks = 0
            \<longrightarrow> ?step =
                  Stop (Returned
                    (st(keyword \<mapsto> \<lparr>last_page_token = JNull, fetched_count = 0, completed = True\<rparr>))
                    known
                    (w1\<lparr>state_file := StateJson
                          (st(keyword \<mapsto> \<lparr>last_page_token = JNull, fetched_count = 0,
                                             completed = True\<rparr>)),
                        output_file := Some (channels_text known)\<rparr>))"
  proof (intro allI impI, elim conjE)
    fix data resp w1
    assume f: "fetch_page env keyword loc ks w = (Inr (data, resp), w1)" and nn: "data \<noteq> JNull"
      and items: "py_get data ''items'' (JList []) = Inr (JList [])"
      and tok: "py_get data ''nextPageToken'' JNull = Inr JNull"
      and zero: "fetched_count ks = 0"
    from items have m: "merge_page env data known = Inr (known, 0)"
      by (simp add: merge_page_def)
    have "ks\<lparr>fetched_count := 0, last_page_token := JNull, completed := True\<rparr>
            = \<lparr>last_page_token = JNull, fetched_count = 0, completed = True\<rparr>"
      by simp
    with on_page_merged[OF m tok, of keyword cfg st ks loc w1] step_page[where st = st and keyword = keyword and cfg = cfg and keys = keys and known = known, OF assms f nn] zero
    show "?step =
                  Stop (Returned
                    (st(keyword \<mapsto> \<lparr>last_page_token = JNull, fetched_count = 0, completed = True\<rparr>))
                    known
                    (w1\<lparr>state_file := StateJson
                          (st(keyword \<mapsto> \<lparr>last_page_token = JNull, fetched_count = 0,
                                             completed = True\<rparr>)),
                        output_file := Some (channels_text known)\<rparr>))"
      by simp
  qed
  have loop: "\<forall>fuel st' known' w' ks'.
              process_loop fuel env keyword cfg keys st known loc w = Returned st' known' w'
            \<and> st' keyword = Some ks' \<and> completed ks'
            \<longrightarrow> max_results_per_keyword cfg \<le> fetched_count ks'
                \<or> \<not> truthy (last_page_token ks')"
    using process_loop_completed_post[where st = st and keyword = keyword and ks = ks, OF assms]
    by blast
  from main edge loop show ?thesis by blast
qed

lemma merged_page_completes_iff_example:
  "step (scripted [Reply \<lparr>status_code = 200, json_body = Some empty_page\<rparr>]) ''btc'' cfg1
      [''k0'', ''k1''] [''btc'' \<mapsto> new_kw_state] {} loc0 initial_world =
     Stop (Returned
       [''btc'' \<mapsto> \<lparr>last_page_token = JNull, fetched_count = 0, completed = True\<rparr>] {}
       \<lparr>calls = 1, events = [UsingKey 0 ''btc'' JNull, first_request ''btc'' ''k0''],
        state_file = StateJson
          [''btc'' \<mapsto> \<lparr>last_page_token = JNull, fetched_count = 0, completed = True\<rparr>],
        output_file = Some []\<rparr>)"
proof -
  let ?env = "scripted [Reply \<lparr>status_code = 200, json_body = Some empty_page\<rparr>]"
  have a: "[''btc'' \<mapsto> new_kw_state] ''btc'' = Some new_kw_state" by simp
  have b: "\<not> completed new_kw_state" by (simp add: new_kw_state_def)
  have c: "fetch_page ?env ''btc'' loc0 new_kw_state initial_world =
      (Inr (empty_page, \<lparr>status_code = 200, json_body = Some empty_page\<rparr>),
       \<lparr>calls = 1, events = [UsingKey 0 ''btc'' JNull, first_request ''btc'' ''k0''],
        state_file = NoFile, output_file = None\<rparr>)"
    by (simp add: fetch_page_reply scripted_def initial_world_def new_kw_state_def loc0_def
          first_request_def)
  have d: "empty_page \<noteq> JNull" "py_get empty_page ''items'' (JList []) = Inr (JList [])"
    "py_get empty_page ''nextPageToken'' JNull = Inr JNull" "fetched_count new_kw_state = 0"
    by (simp_all add: empty_page_def new_kw_state_def)
  from merged_page_completes_iff
         [where st = "[''btc'' \<mapsto> new_kw_state]" and keyword = "''btc''" and env = ?env
            and cfg = cfg1 and keys = "[''k0'', ''k1'']" and known = "{}" and loc = loc0
            and w = initial_world, OF a b] c d
  show ?thesis by (simp add: channels_text_def)
qed

section \<open>The fetched count never goes down\<close>

lemma counts_le_refl: "counts_le a a"
  by (auto simp: counts_le_def)

lemma counts_le_trans: "counts_le a b \<Longrightarrow> counts_le b c \<Longrightarrow> counts_le a c"
  unfolding counts_le_def by (meson order_trans)

lemma counts_le_empty: "counts_le Map.empty b"
  by (simp add: counts_le_def)

lemma counts_le_upd:
  assumes "st k = Some ks" "fetched_count ks \<le> fetched_count ks'"
  shows "counts_le st (st(k \<mapsto> ks'))"
  using assms by (auto simp: counts_le_def)

lemma counts_le_new: "st k = None \<Longrightarrow> counts_le st (st(k \<mapsto> ks'))"
  by (auto simp: counts_le_def)

lemma py_len_nonneg: "py_len items = Inr n \<Longrightarrow> 0 \<le> n"
  by (cases items) auto

lemma merge_page_count:
  assumes "merge_page env data known = Inr (known', fetched)"
  shows "\<exists>items. py_get data ''items'' (JList []) = Inr items \<and> py_len items = Inr fetched
           \<and> 0 \<le> fetched"
  using assms
  by (auto simp: merge_page_def py_len_nonneg split: sum.splits)

lemma step_effect:
  assumes "st keyword = Some ks"
  shows "\<exists>ks'. (fetched_count ks' = fetched_count ks
               \<or> (\<exists>data resp w1 items n. fetch_page env keyword loc ks w = (Inr (data, resp), w1)
                     \<and> py_get data ''items'' (JList []) = Inr items \<and> py_len items = Inr n
                     \<and> 0 \<le> n \<and> fetched_count ks' = fetched_count ks + n))
            \<and> (result_state (step env keyword cfg keys st known loc w) = None
                 \<or> result_state (step env keyword cfg keys st known loc w)
                     = Some (st(keyword \<mapsto> ks')))
            \<and> (state_file (result_world (step env keyword cfg keys st known loc w)) = state_file w
                 \<or> state_file (result_world (step env keyword cfg keys st known loc w))
                     = StateJson (st(keyword \<mapsto> ks')))"
    (is "\<exists>ks'. ?P ks'")
proof -
  let ?step = "step env keyword cfg keys st known loc w"
  have same: "st(keyword \<mapsto> ks) = st" using assms by (simp add: map_upd_triv)
  show ?thesis
  proof (cases "completed ks")
    case True
    with assms have "?step = Stop (Returned st known w)" by (simp add: step_def)
    with same have "?P ks" by simp
    then show ?thesis ..
  next
    case nc: False
    obtain res w1 where f: "fetch_page env keyword loc ks w = (res, w1)"
      by (cases "fetch_page env keyword loc ks w")
    note files = fetch_page_files[OF f]
    show ?thesis
    proof (cases res)
      case (Inl e)
      with f assms nc have "?step = Stop (Raised e w1)" by (simp add: step_raise)
      with files same have "?P ks" by simp
      then show ?thesis ..
    next
      case (Inr dr)
      obtain data resp where dr: "dr = (data, resp)" by (cases dr)
      show ?thesis
      proof (cases "data = JNull")
        case True
        with f Inr dr have f': "fetch_page env keyword loc ks w = (Inr (JNull, resp), w1)" by simp
        from step_null[where st = st and keyword = keyword and cfg = cfg and keys = keys
                         and known = known, OF assms nc f']
        consider w' where "?step = Stop (Returned st known w')"
          | w' where "?step = Stop (Exited 0 w')"
          | e where "?step = Stop (Raised e w1)"
          | loc' where "?step = Continue st known loc' w1"
          by blast
        then have "?P ks"
        proof cases
          case 1
          have "state_file w' = state_file w \<or> state_file w' = StateJson st"
            using 1 assms nc f' files
            by (cases "status_code resp = 403")
               (auto simp: step_def Let_def on_failure_def on_quota_def save_state_def
                     save_known_channels_def split: sum.splits if_splits option.splits)
          with 1 same show ?thesis by auto
        next
          case 2
          have "state_file w' = StateJson st"
            using 2 assms nc f'
            by (cases "status_code resp = 403")
               (auto simp: step_def Let_def on_failure_def on_quota_def save_state_def
                     save_known_channels_def split: sum.splits if_splits option.splits)
          with 2 same show ?thesis by auto
        next
          case 3
          with files same show ?thesis by simp
        next
          case 4
          with files same show ?thesis by simp
        qed
        then show ?thesis ..
      next
        case nn: False
        with f Inr dr assms nc
        have s: "?step = on_page env keyword cfg st ks known loc data w1" by (simp add: step_page)
        have f': "fetch_page env keyword loc ks w = (Inr (data, resp), w1)"
          using f Inr dr by simp
        show ?thesis
        proof (cases "merge_page env data known")
          case (Inl e)
          then obtain e' where "on_page env keyword cfg st ks known loc data w1 = Stop (Raised e' w1)"
            using on_page_raised[of env data known e] by blast
          with s files same have "?P ks" by simp
          then show ?thesis ..
        next
          case m: (Inr kf)
          obtain known' fetched where kf: "kf = (known', fetched)" by (cases kf)
          from m kf have m': "merge_page env data known = Inr (known', fetched)" by simp
          from merge_page_count[OF m'] obtain items where items:
            "py_get data ''items'' (JList []) = Inr items" "py_len items = Inr fetched" "0 \<le> fetched"
            by blast
          show ?thesis
          proof (cases "py_get data ''nextPageToken'' JNull")
            case (Inl e)
            then obtain e' where "on_page env keyword cfg st ks known loc data w1 = Stop (Raised e' w1)"
              using on_page_raised[of env data known e] by blast
            with s files same have "?P ks" by simp
            then show ?thesis ..
          next
            case t: (Inr token)
            note r = on_page_merged[OF m' t, of keyword cfg st ks loc w1]
            show ?thesis
            proof (cases "fetched_count ks + fetched \<ge> max_results_per_keyword cfg \<or> \<not> truthy token")
              case True
              with r s f' items
              have "?P (ks\<lparr>fetched_count := fetched_count ks + fetched,
                                  last_page_token := token, completed := True\<rparr>)"
                by auto
              then show ?thesis ..
            next
              case False
              with r s f' items
              have "?P (ks\<lparr>fetched_count := fetched_count ks + fetched,
                                  last_page_token := token\<rparr>)"
                by auto
              then show ?thesis ..
            qed
          qed
        qed
      qed
    qed
  qed
qed


lemma load_state_cong: "state_file a = state_file b \<Longrightarrow> load_state a = load_state b"
  by (simp add: load_state_def)

lemma load_state_saved: "state_file a = StateJson st \<Longrightarrow> load_state a = st"
  by (simp add: load_state_def)



lemma step_mono:
  assumes "st keyword = Some ks" "counts_le s0 st" "counts_le s0 (load_state w)"
  shows "counts_le s0 (load_state (result_world (step env keyword cfg keys st known loc w)))
       \<and> (\<forall>st'. result_state (step env keyword cfg keys st known loc w) = Some st'
             \<longrightarrow> counts_le s0 st' \<and> st' keyword \<noteq> None)"
proof -
  let ?r = "step env keyword cfg keys st known loc w"
  note e = step_effect[where st = st and keyword = keyword and env = env and loc = loc
       and w = w and cfg = cfg and keys = keys and known = known, OF assms(1)]
  from e obtain ks' where all:
    "(fetched_count ks' = fetched_count ks
               \<or> (\<exists>data resp w1 items n. fetch_page env keyword loc ks w = (Inr (data, resp), w1)
                     \<and> py_get data ''items'' (JList []) = Inr items \<and> py_len items = Inr n
                     \<and> 0 \<le> n \<and> fetched_count ks' = fetched_count ks + n))
            \<and> (result_state ?r = None \<or> result_state ?r = Some (st(keyword \<mapsto> ks')))
            \<and> (state_file (result_world ?r) = state_file w
                 \<or> state_file (result_world ?r) = StateJson (st(keyword \<mapsto> ks')))" ..
  from all have cnt: "fetched_count ks' = fetched_count ks
               \<or> (\<exists>data resp w1 items n. fetch_page env keyword loc ks w = (Inr (data, resp), w1)
                     \<and> py_get data ''items'' (JList []) = Inr items \<and> py_len items = Inr n
                     \<and> 0 \<le> n \<and> fetched_count ks' = fetched_count ks + n)" by (rule conjunct1)
  from all have mem: "result_state ?r = None \<or> result_state ?r = Some (st(keyword \<mapsto> ks'))"
    by (rule conjunct1[OF conjunct2])
  from all have fl: "state_file (result_world ?r) = state_file w
                 \<or> state_file (result_world ?r) = StateJson (st(keyword \<mapsto> ks'))"
    by (rule conjunct2[OF conjunct2])
  from cnt have le: "fetched_count ks \<le> fetched_count ks'"
  proof
    assume "fetched_count ks' = fetched_count ks"
    then show ?thesis by simp
  next
    assume "\<exists>data resp w1 items n. fetch_page env keyword loc ks w = (Inr (data, resp), w1)
                     \<and> py_get data ''items'' (JList []) = Inr items \<and> py_len items = Inr n
                     \<and> 0 \<le> n \<and> fetched_count ks' = fetched_count ks + n"
    then obtain n :: int where "0 \<le> n" "fetched_count ks' = fetched_count ks + n" by blast
    then show ?thesis by simp
  qed
  have up: "counts_le s0 (st(keyword \<mapsto> ks'))"
    using counts_le_trans[OF assms(2) counts_le_upd[where st = st and k = keyword, OF assms(1) le]] .
  from fl have w: "counts_le s0 (load_state (result_world ?r))"
  proof
    assume "state_file (result_world ?r) = state_file w"
    then have "load_state (result_world ?r) = load_state w" by (rule load_state_cong)
    with assms(3) show ?thesis by simp
  next
    assume "state_file (result_world ?r) = StateJson (st(keyword \<mapsto> ks'))"
    then have "load_state (result_world ?r) = st(keyword \<mapsto> ks')" by (rule load_state_saved)
    with up show ?thesis by simp
  qed
  have m: "\<forall>st'. result_state ?r = Some st' \<longrightarrow> counts_le s0 st' \<and> st' keyword \<noteq> None"
  proof (intro allI impI)
    fix st' assume "result_state ?r = Some st'"
    with mem have "st' = st(keyword \<mapsto> ks')" by auto
    with up show "counts_le s0 st' \<and> st' keyword \<noteq> None" by simp
  qed
  from w m show ?thesis by (rule conjI)
qed

lemma process_loop_mono:
  assumes "st keyword \<noteq> None" "counts_le s0 st" "counts_le s0 (load_state w)"
  shows "counts_le s0 (load_state (world_of (process_loop fuel env keyword cfg keys st known loc w)))
       \<and> (\<forall>st' known' w'. process_loop fuel env keyword cfg keys st known loc w
                              = Returned st' known' w' \<longrightarrow> counts_le s0 st')"
  using assms
proof (induction fuel arbitrary: st known loc w)
  case 0
  then show ?case by simp
next
  case (Suc fuel)
  from Suc.prems(1) obtain ks where ks: "st keyword = Some ks" by blast
  note m = step_mono[where st = st and keyword = keyword, OF ks Suc.prems(2,3),
                      of env cfg keys known loc]
  show ?case
  proof (cases "step env keyword cfg keys st known loc w")
    case (Continue st' known' loc' w')
    with m have "st' keyword \<noteq> None" "counts_le s0 st'" "counts_le s0 (load_state w')"
      by simp_all
    from Suc.IH[OF this] Continue show ?thesis by simp
  next
    case (Stop out)
    with m show ?thesis by (cases out) auto
  qed
qed

lemma process_keyword_mono:
  assumes "counts_le s0 st" "counts_le s0 (load_state w)"
  shows "counts_le s0 (load_state (world_of (process_keyword fuel env keyword cfg st known keys w)))
       \<and> (\<forall>st' known' w'. process_keyword fuel env keyword cfg st known keys w
                              = Returned st' known' w' \<longrightarrow> counts_le s0 st')"
proof -
  let ?st = "case st keyword of None \<Rightarrow> st(keyword \<mapsto> new_kw_state) | Some ks \<Rightarrow> st"
  have some: "?st keyword \<noteq> None" by (cases "st keyword") auto
  have "counts_le st ?st"
    by (cases "st keyword") (auto simp: counts_le_new counts_le_refl)
  with assms(1) have le: "counts_le s0 ?st" by (rule counts_le_trans)
  from some obtain ks where ks: "?st keyword = Some ks" by blast
  show ?thesis
  proof (cases "completed ks")
    case True
    with ks le assms(2) show ?thesis by (simp add: process_keyword_def Let_def)
  next
    case nc: False
    show ?thesis
    proof (cases keys)
      case Nil
      with ks nc assms(2) show ?thesis by (simp add: process_keyword_def Let_def)
    next
      case (Cons key0 rest)
      with ks nc have "process_keyword fuel env keyword cfg st known keys w =
          process_loop fuel env keyword cfg keys ?st known
            \<lparr>current_key_index = 0, exhausted_keys = {}, api_key = key0\<rparr> w"
        by (simp add: process_keyword_def Let_def)
      with process_loop_mono[OF some le assms(2)] show ?thesis by simp
    qed
  qed
qed

lemma process_keywords_mono:
  assumes "counts_le s0 st" "counts_le s0 (load_state w)"
  shows "counts_le s0 (load_state (world_of (process_keywords fuel env cfg kws st known w)))"
  using assms
proof (induction kws arbitrary: st known w)
  case Nil
  then show ?case by simp
next
  case (Cons keyword rest)
  note m = process_keyword_mono[OF Cons.prems, of fuel env keyword cfg known "api_keys cfg"]
  show ?case
  proof (cases "process_keyword fuel env keyword cfg st known (api_keys cfg) w")
    case (Returned st' known' w')
    with m have "counts_le s0 st'" "counts_le s0 (load_state w')" by simp_all
    from Cons.IH[OF this] Returned show ?thesis by simp
  qed (use m in simp_all)
qed

lemma main_mono: "counts_le (load_state w) (load_state (world_of (main fuel env cfg w)))"
  by (simp add: main_def process_keywords_mono counts_le_refl)

lemma invocations_mono: "counts_le (load_state w) (load_state (invocations runs w))"
proof (induction runs arbitrary: w)
  case Nil
  show ?case by (simp add: counts_le_refl)
next
  case (Cons run runs)
  from counts_le_trans[OF main_mono Cons.IH] show ?case by simp
qed

text \<open>
  Claim C8. A pass through the loop body leaves \<open>fetched_count\<close> of its keyword as it was or
  adds the number of items of the fetched page, which is not negative, and touches no
  other keyword. Over a whole run, and over any number of runs each starting on the files
  the run before left, the count stored for a keyword never goes down.
\<close>

theorem fetched_count_never_decreases:
  "(\<forall>ks. st keyword = Some ks \<longrightarrow>
      (\<forall>st'. result_state (step env keyword cfg keys st known loc w) = Some st' \<longrightarrow>
         (\<forall>k. k \<noteq> keyword \<longrightarrow> st' k = st k)
       \<and> (\<exists>ks'. st' keyword = Some ks'
            \<and> (fetched_count ks' = fetched_count ks
               \<or> (\<exists>data resp w1 items n.
                     fetch_page env keyword loc ks w = (Inr (data, resp), w1)
                   \<and> py_get data ''items'' (JList []) = Inr items \<and> py_len items = Inr n
                   \<and> 0 \<le> n \<and> fetched_count ks' = fetched_count ks + n)))))
   \<and> counts_le (load_state w0) (load_state (world_of (main fuel env cfg w0)))
   \<and> counts_le (load_state w0) (load_state (invocations runs w0))"
proof (intro conjI allI impI)
  fix ks st' k
  assume ks: "st keyword = Some ks"
    and r: "result_state (step env keyword cfg keys st known loc w) = Some st'"
    and k: "k \<noteq> keyword"
  from step_effect[where st = st and keyword = keyword, OF ks, of env loc w cfg keys known] r
  obtain ks' where "st' = st(keyword \<mapsto> ks')" by auto
  with k show "st' k = st k" by simp
next
  fix ks st'
  assume ks: "st keyword = Some ks"
    and r: "result_state (step env keyword cfg keys st known loc w) = Some st'"
  from step_effect[where st = st and keyword = keyword, OF ks, of env loc w cfg keys known] r
  show "\<exists>ks'. st' keyword = Some ks'
            \<and> (fetched_count ks' = fetched_count ks
               \<or> (\<exists>data resp w1 items n.
                     fetch_page env keyword loc ks w = (Inr (data, resp), w1)
                   \<and> py_get data ''items'' (JList []) = Inr items \<and> py_len items = Inr n
                   \<and> 0 \<le> n \<and> fetched_count ks' = fetched_count ks + n))"
    by auto
next
  show "counts_le (load_state w0) (load_state (world_of (main fuel env cfg w0)))"
    by (rule main_mono)
next
  show "counts_le (load_state w0) (load_state (invocations runs w0))"
    by (rule invocations_mono)
qed

theorem fetched_count_never_decreases_witness:
  "load_state resumed_world ''btc''
     = Some \<lparr>last_page_token = JStr ''t5'', fetched_count = 5, completed = False\<rparr>
   \<and> (\<exists>ks'. load_state (world_of (main 3 flaky cfg1 resumed_world)) ''btc'' = Some ks'
              \<and> 5 \<le> fetched_count ks')"
proof -
  have a: "load_state resumed_world ''btc''
     = Some \<lparr>last_page_token = JStr ''t5'', fetched_count = 5, completed = False\<rparr>"
    by (simp add: load_state_def resumed_world_def)
  from fetched_count_never_decreases [where ?w0.0 = resumed_world and fuel = 3 and env = flaky and cfg = cfg1]
  have "counts_le (load_state resumed_world) (load_state (world_of (main 3 flaky cfg1 resumed_world)))"
    by blast
  with a have "\<exists>ks'. load_state (world_of (main 3 flaky cfg1 resumed_world)) ''btc'' = Some ks'
              \<and> 5 \<le> fetched_count ks'"
    unfolding counts_le_def by fastforce
  with a show ?thesis by blast
qed

section \<open>The channel registry on disk\<close>













section \<open>Exhausted keys and keywords\<close>

lemma request_attempts_events:
  "\<exists>es. events (snd (request_attempts env url ps retries delay attempt w))
          = events w @ Get url ps # es"
proof (induction env url ps retries delay attempt w rule: request_attempts.induct)
  case (1 env url ps retries delay attempt w)
  show ?case
  proof (cases "network env (calls w)")
    case (Reply resp)
    then show ?thesis by (simp add: request_attempts_reply)
  next
    case NetworkError
    show ?thesis
    proof (cases "retries \<le> attempt + 1")
      case True
      with NetworkError show ?thesis by (simp add: request_attempts_last)
    next
      case False
      then have lt: "attempt + 1 < retries" by simp
      have r: "fst (requests_get env url ps w) = NetworkError"
        using NetworkError by (simp add: requests_get_def)
      from "1.IH"[OF refl r False] obtain es where
        "events (snd (request_attempts env url ps retries delay (attempt + 1)
                  (time_sleep delay (snd (requests_get env url ps w)))))
          = events (time_sleep delay (snd (requests_get env url ps w))) @ Get url ps # es"
        by blast
      with NetworkError lt show ?thesis
        by (simp add: request_attempts_again requests_get_def time_sleep_def)
    qed
  qed
qed

lemma fetch_page_events:
  "\<exists>es. events (snd (fetch_page env keyword loc ks w))
          = events w @ UsingKey (current_key_index loc) keyword (last_page_token ks)
              # Get base_url (search_params keyword (api_key loc) (last_page_token ks)) # es"
proof -
  let ?w0 = "print_using (current_key_index loc) keyword (last_page_token ks) w"
  let ?ps = "search_params keyword (api_key loc) (last_page_token ks)"
  from request_attempts_events[of env base_url ?ps 3 "3 / 2" 0 ?w0]
  obtain es where "events (snd (request_attempts env base_url ?ps 3 (3 / 2) 0 ?w0))
          = events ?w0 @ Get base_url ?ps # es" by blast
  then show ?thesis
    by (simp add: fetch_page_def search_videos_world print_using_def)
qed

lemma step_events_after_fetch:
  assumes "st keyword = Some ks" "\<not> completed ks"
  shows "events (result_world (step env keyword cfg keys st known loc w))
           = events (snd (fetch_page env keyword loc ks w))
       \<or> events (result_world (step env keyword cfg keys st known loc w))
           = events (snd (fetch_page env keyword loc ks w)) @ [Sleep (1 / 2)]"
  using assms
  by (auto simp: step_def Let_def on_failure_def on_quota_def on_page_def save_state_def
        save_known_channels_def time_sleep_def
      split: sum.splits prod.splits option.splits if_splits)


lemma step_events_first:
  assumes "st keyword = Some ks" "\<not> completed ks"
  shows "\<exists>es. events (result_world (step env keyword cfg keys st known loc w))
          = events w @ UsingKey (current_key_index loc) keyword (last_page_token ks)
              # Get base_url (search_params keyword (api_key loc) (last_page_token ks)) # es"
proof -
  from fetch_page_events[of env keyword loc ks w] obtain es where
    es: "events (snd (fetch_page env keyword loc ks w))
          = events w @ UsingKey (current_key_index loc) keyword (last_page_token ks)
              # Get base_url (search_params keyword (api_key loc) (last_page_token ks)) # es"
    by blast
  from step_events_after_fetch[where st = st and keyword = keyword, OF assms, of env cfg keys known loc w]
  show ?thesis
  proof
    assume "events (result_world (step env keyword cfg keys st known loc w))
           = events (snd (fetch_page env keyword loc ks w))"
    with es show ?thesis by simp
  next
    assume "events (result_world (step env keyword cfg keys st known loc w))
           = events (snd (fetch_page env keyword loc ks w)) @ [Sleep (1 / 2)]"
    with es show ?thesis by simp
  qed
qed

lemma step_events_grow:
  "\<exists>es. events (result_world (step env keyword cfg keys st known loc w)) = events w @ es"
proof (cases "st keyword")
  case None
  then show ?thesis by (simp add: step_def)
next
  case (Some ks)
  show ?thesis
  proof (cases "completed ks")
    case True
    with Some show ?thesis by (simp add: step_def)
  next
    case False
    from step_events_first[where st = st and keyword = keyword, OF Some False, of env cfg keys known loc w]
    show ?thesis by auto
  qed
qed

lemma process_loop_events_grow:
  "\<exists>es. events (world_of (process_loop fuel env keyword cfg keys st known loc w)) = events w @ es"
proof (induction fuel arbitrary: st known loc w)
  case 0
  show ?case by simp
next
  case (Suc fuel)
  from step_events_grow[of env keyword cfg keys st known loc w] obtain es1 where
    es1: "events (result_world (step env keyword cfg keys st known loc w)) = events w @ es1"
    by blast
  show ?case
  proof (cases "step env keyword cfg keys st known loc w")
    case (Continue st' known' loc' w')
    from Suc.IH[of st' known' loc' w'] obtain es2 where
      "events (world_of (process_loop fuel env keyword cfg keys st' known' loc' w')) = events w' @ es2"
      by blast
    with Continue es1 show ?thesis by simp
  next
    case (Stop out)
    with es1 show ?thesis by simp
  qed
qed

lemma process_loop_events_first:
  assumes "st keyword = Some ks" "\<not> completed ks"
  shows "\<exists>es. events (world_of (process_loop (Suc fuel) env keyword cfg keys st known loc w))
          = events w @ UsingKey (current_key_index loc) keyword (last_page_token ks)
              # Get base_url (search_params keyword (api_key loc) (last_page_token ks)) # es"
proof -
  from step_events_first[where st = st and keyword = keyword, OF assms, of env cfg keys known loc w]
  obtain es1 where
    es1: "events (result_world (step env keyword cfg keys st known loc w))
          = events w @ UsingKey (current_key_index loc) keyword (last_page_token ks)
              # Get base_url (search_params keyword (api_key loc) (last_page_token ks)) # es1"
    by blast
  show ?thesis
  proof (cases "step env keyword cfg keys st known loc w")
    case (Continue st' known' loc' w')
    from process_loop_events_grow[of fuel env keyword cfg keys st' known' loc' w'] obtain es2 where
      "events (world_of (process_loop fuel env keyword cfg keys st' known' loc' w')) = events w' @ es2"
      by blast
    with Continue es1 show ?thesis by simp
  next
    case (Stop out)
    with es1 show ?thesis by simp
  qed
qed

text \<open>
  Claim C9, as amended. The set of exhausted key indices belongs to one call of
  \<open>process_keyword\<close>: for every keyword that is not yet completed the page loop starts with
  key index 0 and an empty set, so the first request for the keyword is sent with the
  first key, whatever was marked while earlier keywords were processed. Nothing of the set
  is written to a file. The claim as stated fails: in the run below key 0 is marked
  exhausted while the first keyword is processed and is used again for the second.
\<close>

theorem exhausted_marks_are_per_keyword:
  assumes "keys \<noteq> []" "\<forall>ks. st keyword = Some ks \<longrightarrow> \<not> completed ks"
  shows "process_keyword fuel env keyword cfg st known keys w =
           process_loop fuel env keyword cfg keys
             (case st keyword of None \<Rightarrow> st(keyword \<mapsto> new_kw_state) | Some ks \<Rightarrow> st) known
             \<lparr>current_key_index = 0, exhausted_keys = {}, api_key = keys ! 0\<rparr> w
       \<and> (\<exists>es. events (world_of (process_keyword (Suc fuel) env keyword cfg st known keys w))
             = events w
               @ UsingKey 0 keyword
                   (case st keyword of None \<Rightarrow> JNull | Some ks \<Rightarrow> last_page_token ks)
               # Get base_url (search_params keyword (keys ! 0)
                   (case st keyword of None \<Rightarrow> JNull | Some ks \<Rightarrow> last_page_token ks))
               # es)"
proof -
  let ?st = "case st keyword of None \<Rightarrow> st(keyword \<mapsto> new_kw_state) | Some ks \<Rightarrow> st"
  let ?ks = "case st keyword of None \<Rightarrow> new_kw_state | Some ks \<Rightarrow> ks"
  let ?loc = "\<lparr>current_key_index = 0, exhausted_keys = {}, api_key = keys ! 0\<rparr>"
  from assms(1) obtain key0 rest where keys: "keys = key0 # rest" by (cases keys) auto
  have ks: "?st keyword = Some ?ks" by (cases "st keyword") auto
  have nc: "\<not> completed ?ks" using assms(2) by (cases "st keyword") (auto simp: new_kw_state_def)
  have tok: "last_page_token ?ks = (case st keyword of None \<Rightarrow> JNull | Some ks \<Rightarrow> last_page_token ks)"
    by (cases "st keyword") (auto simp: new_kw_state_def)
  have eq: "process_keyword fuel env keyword cfg st known keys w =
           process_loop fuel env keyword cfg keys ?st known ?loc w" for fuel
    using ks nc keys by (simp add: process_keyword_def Let_def)
  from process_loop_events_first[where st = ?st and keyword = keyword and ks = ?ks, OF ks nc,
          of fuel env cfg keys known ?loc w]
  have "\<exists>es. events (world_of (process_loop (Suc fuel) env keyword cfg keys ?st known ?loc w))
          = events w @ UsingKey 0 keyword (last_page_token ?ks)
              # Get base_url (search_params keyword (keys ! 0) (last_page_token ?ks)) # es"
    by simp
  with eq tok show ?thesis by simp
qed

theorem exhausted_marks_are_per_keyword_witness:
  "[''k0'', ''k1''] \<noteq> ([] :: string list)
   \<and> (\<exists>es. events (world_of (process_keyword (Suc (Suc 0)) rotation_run ''eth'' cfg1
                  [''btc'' \<mapsto> done_kw] {} [''k0'', ''k1'']
                  \<lparr>calls = 2, events = [], state_file = NoFile, output_file = None\<rparr>))
            = UsingKey 0 ''eth'' JNull # first_request ''eth'' ''k0'' # es)"
proof -
  have a: "[''k0'', ''k1''] \<noteq> ([] :: string list)" by simp
  have b: "\<forall>ks. [''btc'' \<mapsto> done_kw] ''eth'' = Some ks \<longrightarrow> \<not> completed ks" by simp
  from exhausted_marks_are_per_keyword
         [where st = "[''btc'' \<mapsto> done_kw]" and keyword = "''eth''" and keys = "[''k0'', ''k1'']"
            and fuel = "Suc 0" and env = rotation_run and cfg = cfg1 and known = "{}"
            and w = "\<lparr>calls = 2, events = [], state_file = NoFile, output_file = None\<rparr>",
          OF a b]
  have "\<exists>es. events (world_of (process_keyword (Suc (Suc 0)) rotation_run ''eth'' cfg1
                  [''btc'' \<mapsto> done_kw] {} [''k0'', ''k1'']
                  \<lparr>calls = 2, events = [], state_file = NoFile, output_file = None\<rparr>))
            = UsingKey 0 ''eth'' JNull # first_request ''eth'' ''k0'' # es"
    by (simp add: first_request_def)
  with a show ?thesis by blast
qed

lemma empty_page_merge: "merge_page env empty_page known = Inr (known, 0)"
  by (simp add: merge_page_def empty_page_def)

lemma rotation_first_pass:
  "step rotation_run ''btc'' cfg1 [''k0'', ''k1''] [''btc'' \<mapsto> new_kw_state] {} loc0 initial_world
     = Continue [''btc'' \<mapsto> new_kw_state] {}
         \<lparr>current_key_index = 1, exhausted_keys = {0}, api_key = ''k1''\<rparr>
         \<lparr>calls = 1, events = [UsingKey 0 ''btc'' JNull, first_request ''btc'' ''k0''],
          state_file = NoFile, output_file = None\<rparr>"
proof -
  have a: "[''btc'' \<mapsto> new_kw_state] ''btc'' = Some new_kw_state" by simp
  have b: "\<not> completed new_kw_state" by (simp add: new_kw_state_def)
  have c: "fetch_page rotation_run ''btc'' loc0 new_kw_state initial_world =
      (Inr (JNull, \<lparr>status_code = 403, json_body = Some quota_body\<rparr>),
       \<lparr>calls = 1, events = [UsingKey 0 ''btc'' JNull, first_request ''btc'' ''k0''],
        state_file = NoFile, output_file = None\<rparr>)"
    by (simp add: fetch_page_reply rotation_run_def scripted_def initial_world_def
          new_kw_state_def loc0_def first_request_def)
  have d: "get_next_api_key [''k0'', ''k1''] {0} 0 = Some (1, ''k1'')"
    by (simp add: get_next_api_key_def Let_def upto.simps)
  from step_quota[where st = "[''btc'' \<mapsto> new_kw_state]" and keyword = "''btc''"
         and cfg = cfg1 and keys = "[''k0'', ''k1'']" and known = "{}" and body = quota_body,
         OF a b c _ _ handle_quota_error_quota_body] d
  show ?thesis by (simp add: on_quota_def Let_def loc0_def)
qed

lemma rotation_second_pass:
  "step rotation_run ''btc'' cfg1 [''k0'', ''k1''] [''btc'' \<mapsto> new_kw_state] {}
         \<lparr>current_key_index = 1, exhausted_keys = {0}, api_key = ''k1''\<rparr>
         \<lparr>calls = 1, events = [UsingKey 0 ''btc'' JNull, first_request ''btc'' ''k0''],
          state_file = NoFile, output_file = None\<rparr>
     = Stop (Returned [''btc'' \<mapsto> done_kw] {}
         \<lparr>calls = 2, events = [UsingKey 0 ''btc'' JNull, first_request ''btc'' ''k0'',
                               UsingKey 1 ''btc'' JNull, first_request ''btc'' ''k1''],
          state_file = StateJson [''btc'' \<mapsto> done_kw], output_file = Some []\<rparr>)"
proof -
  let ?loc = "\<lparr>current_key_index = 1, exhausted_keys = {0}, api_key = ''k1''\<rparr>"
  let ?w = "\<lparr>calls = 1, events = [UsingKey 0 ''btc'' JNull, first_request ''btc'' ''k0''],
          state_file = NoFile, output_file = None\<rparr>"
  have a: "[''btc'' \<mapsto> new_kw_state] ''btc'' = Some new_kw_state" by simp
  have b: "\<not> completed new_kw_state" by (simp add: new_kw_state_def)
  have c: "fetch_page rotation_run ''btc'' ?loc new_kw_state ?w =
      (Inr (empty_page, \<lparr>status_code = 200, json_body = Some empty_page\<rparr>),
       \<lparr>calls = 2, events = [UsingKey 0 ''btc'' JNull, first_request ''btc'' ''k0'',
                               UsingKey 1 ''btc'' JNull, first_request ''btc'' ''k1''],
        state_file = NoFile, output_file = None\<rparr>)"
    by (simp add: fetch_page_reply rotation_run_def scripted_def new_kw_state_def
          first_request_def)
  have d: "empty_page \<noteq> JNull" "py_get empty_page ''nextPageToken'' JNull = Inr JNull"
    by (simp_all add: empty_page_def)
  from step_page[where st = "[''btc'' \<mapsto> new_kw_state]" and keyword = "''btc''"
         and cfg = cfg1 and keys = "[''k0'', ''k1'']" and known = "{}", OF a b c d(1)]
       on_page_merged[where keyword = "''btc''" and cfg = cfg1
         and st = "[''btc'' \<mapsto> new_kw_state]" and ks = new_kw_state and loc = ?loc
         and env = rotation_run, OF empty_page_merge d(2)]
  show ?thesis by (simp add: channels_text_def done_kw_def new_kw_state_def)
qed

lemma rotation_first_keyword:
  "process_keyword (Suc (Suc 0)) rotation_run ''btc'' cfg1 Map.empty {} [''k0'', ''k1'']
     initial_world
   = Returned [''btc'' \<mapsto> done_kw] {}
         \<lparr>calls = 2, events = [UsingKey 0 ''btc'' JNull, first_request ''btc'' ''k0'',
                               UsingKey 1 ''btc'' JNull, first_request ''btc'' ''k1''],
          state_file = StateJson [''btc'' \<mapsto> done_kw], output_file = Some []\<rparr>"
  using rotation_first_pass rotation_second_pass
  by (simp add: process_keyword_def Let_def new_kw_state_def loc0_def)

lemma rotation_second_keyword:
  "process_keyword (Suc (Suc 0)) rotation_run ''eth'' cfg1 [''btc'' \<mapsto> done_kw] {}
     [''k0'', ''k1'']
     \<lparr>calls = 2, events = [UsingKey 0 ''btc'' JNull, first_request ''btc'' ''k0'',
                               UsingKey 1 ''btc'' JNull, first_request ''btc'' ''k1''],
          state_file = StateJson [''btc'' \<mapsto> done_kw], output_file = Some []\<rparr>
   = Returned [''btc'' \<mapsto> done_kw, ''eth'' \<mapsto> done_kw] {}
         \<lparr>calls = 3, events = [UsingKey 0 ''btc'' JNull, first_request ''btc'' ''k0'',
                               UsingKey 1 ''btc'' JNull, first_request ''btc'' ''k1'',
                               UsingKey 0 ''eth'' JNull, first_request ''eth'' ''k0''],
          state_file = StateJson [''btc'' \<mapsto> done_kw, ''eth'' \<mapsto> done_kw],
          output_file = Some []\<rparr>"
proof -
  let ?st = "[''btc'' \<mapsto> done_kw, ''eth'' \<mapsto> new_kw_state]"
  let ?w = "\<lparr>calls = 2, events = [UsingKey 0 ''btc'' JNull, first_request ''btc'' ''k0'',
                               UsingKey 1 ''btc'' JNull, first_request ''btc'' ''k1''],
          state_file = StateJson [''btc'' \<mapsto> done_kw], output_file = Some []\<rparr>"
  have a: "?st ''eth'' = Some new_kw_state" by simp
  have b: "\<not> completed new_kw_state" by (simp add: new_kw_state_def)
  have c: "fetch_page rotation_run ''eth'' loc0 new_kw_state ?w =
      (Inr (empty_page, \<lparr>status_code = 200, json_body = Some empty_page\<rparr>),
       \<lparr>calls = 3, events = [UsingKey 0 ''btc'' JNull, first_request ''btc'' ''k0'',
                               UsingKey 1 ''btc'' JNull, first_request ''btc'' ''k1'',
                               UsingKey 0 ''eth'' JNull, first_request ''eth'' ''k0''],
        state_file = StateJson [''btc'' \<mapsto> done_kw], output_file = Some []\<rparr>)"
    by (simp add: fetch_page_reply rotation_run_def scripted_def new_kw_state_def
          first_request_def loc0_def)
  have d: "empty_page \<noteq> JNull" "py_get empty_page ''nextPageToken'' JNull = Inr JNull"
    by (simp_all add: empty_page_def)
  from step_page[where st = ?st and keyword = "''eth''"
         and cfg = cfg1 and keys = "[''k0'', ''k1'']" and known = "{}", OF a b c d(1)]
       on_page_merged[where keyword = "''eth''" and cfg = cfg1 and st = ?st and ks = new_kw_state
         and loc = loc0 and env = rotation_run, OF empty_page_merge d(2)]
  have "step rotation_run ''eth'' cfg1 [''k0'', ''k1''] ?st {} loc0 ?w
     = Stop (Returned [''btc'' \<mapsto> done_kw, ''eth'' \<mapsto> done_kw] {}
         \<lparr>calls = 3, events = [UsingKey 0 ''btc'' JNull, first_request ''btc'' ''k0'',
                               UsingKey 1 ''btc'' JNull, first_request ''btc'' ''k1'',
                               UsingKey 0 ''eth'' JNull, first_request ''eth'' ''k0''],
          state_file = StateJson [''btc'' \<mapsto> done_kw, ''eth'' \<mapsto> done_kw],
          output_file = Some []\<rparr>)"
    by (simp add: channels_text_def done_kw_def new_kw_state_def)
  then show ?thesis
    by (simp add: process_keyword_def Let_def loc0_def done_kw_def new_kw_state_def)
qed

theorem exhausted_marks_counterexample:
  "step rotation_run ''btc'' cfg1 [''k0'', ''k1''] [''btc'' \<mapsto> new_kw_state] {} loc0 initial_world
     = Continue [''btc'' \<mapsto> new_kw_state] {}
         \<lparr>current_key_index = 1, exhausted_keys = {0}, api_key = ''k1''\<rparr>
         \<lparr>calls = 1, events = [UsingKey 0 ''btc'' JNull, first_request ''btc'' ''k0''],
          state_file = NoFile, output_file = None\<rparr>
   \<and> main (Suc (Suc 0)) rotation_run cfg1 initial_world
     = Exited 0
         \<lparr>calls = 3, events = [UsingKey 0 ''btc'' JNull, first_request ''btc'' ''k0'',
                               UsingKey 1 ''btc'' JNull, first_request ''btc'' ''k1'',
                               UsingKey 0 ''eth'' JNull, first_request ''eth'' ''k0''],
          state_file = StateJson [''btc'' \<mapsto> done_kw, ''eth'' \<mapsto> done_kw],
          output_file = Some []\<rparr>"
proof -
  have l: "load_state initial_world = Map.empty" "load_known_channels initial_world = {}"
    by (simp_all add: load_state_def load_known_channels_def initial_world_def)
  have "main (Suc (Suc 0)) rotation_run cfg1 initial_world
     = Exited 0
         \<lparr>calls = 3, events = [UsingKey 0 ''btc'' JNull, first_request ''btc'' ''k0'',
                               UsingKey 1 ''btc'' JNull, first_request ''btc'' ''k1'',
                               UsingKey 0 ''eth'' JNull, first_request ''eth'' ''k0''],
          state_file = StateJson [''btc'' \<mapsto> done_kw, ''eth'' \<mapsto> done_kw],
          output_file = Some []\<rparr>"
    using rotation_first_keyword rotation_second_keyword
    by (simp add: main_def l cfg1_def)
  with rotation_first_pass show ?thesis by simp
qed

section \<open>Quota classification on bodies of unexpected shape\<close>

text \<open>
  What \<open>handle_quota_error\<close> computes: the set of reasons exists when every reason of a dict
  entry can be hashed, and then holds exactly those reasons; the answer is \<open>True\<close> exactly
  when the body is a non-empty dict whose \<open>error.errors\<close> can be iterated, no dict entry has
  a list or a dict as its reason, and one of them has a quota reason.
\<close>

lemma py_get_dict: "is_dict item \<Longrightarrow> \<exists>r. py_get item k d = Inr r"
  by (cases item) auto

lemma reasons_of_raises:
  "reasons_of items = Inl e \<Longrightarrow>
     e = TypeError \<and> (\<exists>item\<in>set items. \<exists>r. is_dict item \<and> py_get item ''reason'' JNull = Inr r
                          \<and> \<not> hashable r)"
proof (induction items)
  case Nil
  then show ?case by simp
next
  case (Cons item rest)
  show ?case
  proof (cases "is_dict item")
    case False
    with Cons show ?thesis by simp
  next
    case True
    then obtain r0 where g: "py_get item ''reason'' JNull = Inr r0"
      using py_get_dict by blast
    show ?thesis
    proof (cases "hashable r0")
      case False
      with True g Cons.prems have "e = TypeError" by simp
      with True g False show ?thesis by auto
    next
      case h: True
      with True g Cons.prems have "reasons_of rest = Inl e"
        by (simp split: sum.splits)
      from Cons.IH[OF this] show ?thesis by auto
    qed
  qed
qed

lemma reasons_of_returns:
  "reasons_of items = Inr rs \<Longrightarrow>
     (\<forall>item\<in>set items. \<forall>r. is_dict item \<and> py_get item ''reason'' JNull = Inr r \<longrightarrow> hashable r)
     \<and> (\<forall>r. r \<in> rs \<longleftrightarrow>
           (\<exists>item\<in>set items. is_dict item \<and> py_get item ''reason'' JNull = Inr r))"
proof (induction items arbitrary: rs)
  case Nil
  then show ?case by simp
next
  case (Cons item rest)
  show ?case
  proof (cases "is_dict item")
    case False
    with Cons.prems have "reasons_of rest = Inr rs" by simp
    from Cons.IH[OF this] False show ?thesis by simp
  next
    case True
    then obtain r0 where g: "py_get item ''reason'' JNull = Inr r0"
      using py_get_dict by blast
    from True g Cons.prems have h: "hashable r0"
      by (simp split: if_splits)
    from True g h Cons.prems obtain rs' where rest: "reasons_of rest = Inr rs'"
      and rs: "rs = insert r0 rs'"
      by (auto split: sum.splits)
    from Cons.IH[OF rest] True g h rs show ?thesis by simp blast
  qed
qed


lemma handle_quota_error_true_iff:
  "handle_quota_error j = Inr True \<longleftrightarrow>
     (\<exists>err errors items. truthy j
        \<and> py_get j ''error'' (JDict []) = Inr err
        \<and> py_get err ''errors'' (JList []) = Inr errors
        \<and> py_iter errors = Inr items
        \<and> (\<forall>item\<in>set items. \<forall>r. is_dict item \<and> py_get item ''reason'' JNull = Inr r
               \<longrightarrow> hashable r)
        \<and> (\<exists>item\<in>set items. is_dict item
              \<and> (py_get item ''reason'' JNull = Inr (JStr ''quotaExceeded'')
                 \<or> py_get item ''reason'' JNull = Inr (JStr ''dailyLimitExceeded''))))"
  (is "?L \<longleftrightarrow> ?R")
proof
  assume L: ?L
  then have t: "truthy j" by (auto simp: handle_quota_error_def split: if_splits)
  from L t obtain err where err: "py_get j ''error'' (JDict []) = Inr err"
    by (cases "py_get j ''error'' (JDict [])") (simp_all add: handle_quota_error_def)
  from L t err obtain errors where errors: "py_get err ''errors'' (JList []) = Inr errors"
    by (cases "py_get err ''errors'' (JList [])") (simp_all add: handle_quota_error_def)
  from L t err errors obtain items where items: "py_iter errors = Inr items"
    by (cases "py_iter errors") (simp_all add: handle_quota_error_def)
  from L t err errors items obtain rs where rs: "reasons_of items = Inr rs"
    by (cases "reasons_of items") (simp_all add: handle_quota_error_def)
  from L t err errors items rs
  have m: "JStr ''quotaExceeded'' \<in> rs \<or> JStr ''dailyLimitExceeded'' \<in> rs"
    by (simp add: handle_quota_error_def)
  note r = reasons_of_returns[OF rs]
  from r have h: "\<forall>item\<in>set items. \<forall>r. is_dict item \<and> py_get item ''reason'' JNull = Inr r
               \<longrightarrow> hashable r" by (rule conjunct1)
  from r have mem: "\<And>x. x \<in> rs \<longleftrightarrow>
           (\<exists>item\<in>set items. is_dict item \<and> py_get item ''reason'' JNull = Inr x)"
    by blast
  from m have "\<exists>item\<in>set items. is_dict item
              \<and> (py_get item ''reason'' JNull = Inr (JStr ''quotaExceeded'')
                 \<or> py_get item ''reason'' JNull = Inr (JStr ''dailyLimitExceeded''))"
  proof
    assume "JStr ''quotaExceeded'' \<in> rs"
    then show ?thesis using mem[of "JStr ''quotaExceeded''"] by blast
  next
    assume "JStr ''dailyLimitExceeded'' \<in> rs"
    then show ?thesis using mem[of "JStr ''dailyLimitExceeded''"] by blast
  qed
  with t err errors items h show ?R by blast
next
  assume ?R
  then obtain err errors items where t: "truthy j"
    and err: "py_get j ''error'' (JDict []) = Inr err"
    and errors: "py_get err ''errors'' (JList []) = Inr errors"
    and items: "py_iter errors = Inr items"
    and h: "\<forall>item\<in>set items. \<forall>r. is_dict item \<and> py_get item ''reason'' JNull = Inr r
               \<longrightarrow> hashable r"
    and q: "\<exists>item\<in>set items. is_dict item
              \<and> (py_get item ''reason'' JNull = Inr (JStr ''quotaExceeded'')
                 \<or> py_get item ''reason'' JNull = Inr (JStr ''dailyLimitExceeded''))"
    by blast
  obtain rs where rs: "reasons_of items = Inr rs"
  proof (cases "reasons_of items")
    case (Inl e)
    from reasons_of_raises[OF this] h show ?thesis by blast
  next
    case (Inr rs)
    then show ?thesis by (rule that)
  qed
  from reasons_of_returns[OF rs] have mem: "\<And>x. x \<in> rs \<longleftrightarrow>
           (\<exists>item\<in>set items. is_dict item \<and> py_get item ''reason'' JNull = Inr x)"
    by blast
  from q have "JStr ''quotaExceeded'' \<in> rs \<or> JStr ''dailyLimitExceeded'' \<in> rs"
    using mem[of "JStr ''quotaExceeded''"] mem[of "JStr ''dailyLimitExceeded''"] by blast
  with t err errors items rs show ?L by (simp add: handle_quota_error_def)
qed

text \<open>
  Claim C3. A 403 response is a quota error exactly when \<open>error.errors[*].reason\<close> holds
  \<open>quotaExceeded\<close> or \<open>dailyLimitExceeded\<close> among the dict entries. The code misses one case:
  when another dict entry of the list has a list or a dict as its reason, building the set
  of reasons raises \<open>TypeError\<close>, although the quota reason is there. The exception is not
  caught by \<open>process_keyword\<close> and ends the pass.
\<close>

theorem quota_reason_beside_unhashable_reason:
  "handle_quota_error odd_quota_body = Inl TypeError
   \<and> step (scripted [Reply \<lparr>status_code = 403, json_body = Some odd_quota_body\<rparr>]) ''btc'' cfg1
        [''k0'', ''k1''] [''btc'' \<mapsto> new_kw_state] {} loc0 initial_world
      = Stop (Raised TypeError
          \<lparr>calls = 1, events = [UsingKey 0 ''btc'' JNull, first_request ''btc'' ''k0''],
           state_file = NoFile, output_file = None\<rparr>)"
proof -
  let ?env = "scripted [Reply \<lparr>status_code = 403, json_body = Some odd_quota_body\<rparr>]"
  have h: "handle_quota_error odd_quota_body = Inl TypeError"
    by (simp add: handle_quota_error_def odd_quota_body_def)
  have c: "fetch_page ?env ''btc'' loc0 new_kw_state initial_world =
      (Inr (JNull, \<lparr>status_code = 403, json_body = Some odd_quota_body\<rparr>),
       \<lparr>calls = 1, events = [UsingKey 0 ''btc'' JNull, first_request ''btc'' ''k0''],
        state_file = NoFile, output_file = None\<rparr>)"
    by (simp add: fetch_page_reply scripted_def initial_world_def new_kw_state_def loc0_def
          first_request_def)
  have "step ?env ''btc'' cfg1 [''k0'', ''k1''] [''btc'' \<mapsto> new_kw_state] {} loc0 initial_world
      = Stop (Raised TypeError
          \<lparr>calls = 1, events = [UsingKey 0 ''btc'' JNull, first_request ''btc'' ''k0''],
           state_file = NoFile, output_file = None\<rparr>)"
    using c h by (simp add: step_def Let_def new_kw_state_def)
  with h show ?thesis by simp
qed

text \<open>
  Claim C6. A failed request that is not a quota error makes \<open>process_keyword\<close> write state
  and registry and return, the keyword not completed and its cursor as stored: this is
  \<open>step_failure\<close> above, for a status other than 403 and for a 403 whose body
  \<open>handle_quota_error\<close> answers with \<open>False\<close>. The code does not reach that path for a 403
  body such as \<open>{"error": "Forbidden"}\<close>: \<open>handle_quota_error\<close> calls \<open>get\<close> on the string and
  raises \<open>AttributeError\<close>, nothing is written and the run ends before the next keyword.
\<close>

theorem forbidden_string_error_ends_process:
  "handle_quota_error forbidden_body = Inl AttributeError
   \<and> main (Suc 0) (scripted [Reply \<lparr>status_code = 403, json_body = Some forbidden_body\<rparr>]) cfg1
        initial_world
      = Raised AttributeError
          \<lparr>calls = 1, events = [UsingKey 0 ''btc'' JNull, first_request ''btc'' ''k0''],
           state_file = NoFile, output_file = None\<rparr>"
proof -
  let ?env = "scripted [Reply \<lparr>status_code = 403, json_body = Some forbidden_body\<rparr>]"
  have h: "handle_quota_error forbidden_body = Inl AttributeError"
    by (simp add: handle_quota_error_def forbidden_body_def)
  have c: "fetch_page ?env ''btc'' loc0 new_kw_state initial_world =
      (Inr (JNull, \<lparr>status_code = 403, json_body = Some forbidden_body\<rparr>),
       \<lparr>calls = 1, events = [UsingKey 0 ''btc'' JNull, first_request ''btc'' ''k0''],
        state_file = NoFile, output_file = None\<rparr>)"
    by (simp add: fetch_page_reply scripted_def initial_world_def new_kw_state_def loc0_def
          first_request_def)
  have s: "step ?env ''btc'' cfg1 [''k0'', ''k1''] [''btc'' \<mapsto> new_kw_state] {} loc0 initial_world
      = Stop (Raised AttributeError
          \<lparr>calls = 1, events = [UsingKey 0 ''btc'' JNull, first_request ''btc'' ''k0''],
           state_file = NoFile, output_file = None\<rparr>)"
    using c h by (simp add: step_def Let_def new_kw_state_def)
  have l: "load_state initial_world = Map.empty" "load_known_channels initial_world = {}"
    by (simp_all add: load_state_def load_known_channels_def initial_world_def)
  have "main (Suc 0) ?env cfg1 initial_world
      = Raised AttributeError
          \<lparr>calls = 1, events = [UsingKey 0 ''btc'' JNull, first_request ''btc'' ''k0''],
           state_file = NoFile, output_file = None\<rparr>"
    using s by (simp add: main_def l cfg1_def process_keyword_def Let_def new_kw_state_def loc0_def)
  with h show ?thesis by simp
qed

section \<open>A page of unexpected shape\<close>

text \<open>
  Claim C1. The flag \<open>completed\<close> is set exactly when, after a successful page fetch, the
  count has reached the cap or the page has no next cursor. The code sets the flag at no
  other place (\<open>merged_page_completes_iff\<close> above), but it misses a case: a reply with
  status 200 whose body parses to \<open>{"items": null}\<close> is a fetched page without a cursor, and
  the \<open>for\<close> loop over \<open>None\<close> raises \<open>TypeError\<close> before the count and the flag are touched.
  The exception is not caught: nothing is written and the run ends before the next keyword.
\<close>

theorem null_items_page_ends_process:
  "py_get null_items_page ''items'' (JList []) = Inr JNull
   \<and> py_iter JNull = Inl TypeError
   \<and> py_get null_items_page ''nextPageToken'' JNull = Inr JNull
   \<and> main (Suc 0) (scripted [Reply \<lparr>status_code = 200, json_body = Some null_items_page\<rparr>]) cfg1
        initial_world
      = Raised TypeError
          \<lparr>calls = 1, events = [UsingKey 0 ''btc'' JNull, first_request ''btc'' ''k0''],
           state_file = NoFile, output_file = None\<rparr>"
proof -
  let ?env = "scripted [Reply \<lparr>status_code = 200, json_body = Some null_items_page\<rparr>]"
  have g: "py_get null_items_page ''items'' (JList []) = Inr JNull"
    "py_get null_items_page ''nextPageToken'' JNull = Inr JNull"
    by (simp_all add: null_items_page_def)
  have m: "merge_page ?env null_items_page {} = Inl TypeError"
    by (simp add: merge_page_def null_items_page_def)
  have a: "[''btc'' \<mapsto> new_kw_state] ''btc'' = Some new_kw_state" by simp
  have b: "\<not> completed new_kw_state" by (simp add: new_kw_state_def)
  have c: "fetch_page ?env ''btc'' loc0 new_kw_state initial_world =
      (Inr (null_items_page, \<lparr>status_code = 200, json_body = Some null_items_page\<rparr>),
       \<lparr>calls = 1, events = [UsingKey 0 ''btc'' JNull, first_request ''btc'' ''k0''],
        state_file = NoFile, output_file = None\<rparr>)"
    by (simp add: fetch_page_reply scripted_def initial_world_def new_kw_state_def loc0_def
          first_request_def)
  have nn: "null_items_page \<noteq> JNull" by (simp add: null_items_page_def)
  from step_page[where st = "[''btc'' \<mapsto> new_kw_state]" and keyword = "''btc''"
         and cfg = cfg1 and keys = "[''k0'', ''k1'']" and known = "{}", OF a b c nn] m
  have s: "step ?env ''btc'' cfg1 [''k0'', ''k1''] [''btc'' \<mapsto> new_kw_state] {} loc0 initial_world
      = Stop (Raised TypeError
          \<lparr>calls = 1, events = [UsingKey 0 ''btc'' JNull, first_request ''btc'' ''k0''],
           state_file = NoFile, output_file = None\<rparr>)"
    by (simp add: on_page_def)
  have l: "load_state initial_world = Map.empty" "load_known_channels initial_world = {}"
    by (simp_all add: load_state_def load_known_channels_def initial_world_def)
  have "main (Suc 0) ?env cfg1 initial_world
      = Raised TypeError
          \<lparr>calls = 1, events = [UsingKey 0 ''btc'' JNull, first_request ''btc'' ''k0''],
           state_file = NoFile, output_file = None\<rparr>"
    using s by (simp add: main_def l cfg1_def process_keyword_def Let_def new_kw_state_def loc0_def)
  with g show ?thesis by simp
qed

end
